theory Spec2Isabelle
  imports Main "HOL-Library.Word"
begin

section \<open>The Caliper memory pool (\<^verbatim>\<open>src/caliper/MemoryPool.cpp\<close>)\<close>

text \<open>
  The pool is a list of chunks of \<^verbatim>\<open>uint64_t\<close> slots and the index of the chunk that
  currently serves requests. \<^verbatim>\<open>size_t\<close> is a 64-bit word, so the slot arithmetic of
  \<^verbatim>\<open>expand\<close> and \<^verbatim>\<open>allocate\<close> wraps as it does in the program. The length of the
  vector and \<^verbatim>\<open>m_index\<close> are natural numbers: they count chunks held in memory.
  The lock of the public entry point is left out; the calls are modelled one after the
  other, which is the order the write lock imposes.
\<close>

subsection \<open>Memory\<close>

type_synonym size_t = "64 word"

text \<open>
  A pointer is the block it points into (one block for each array that \<^verbatim>\<open>new\<close>
  returned) and a byte offset from the start of that block. The null pointer is
  \<open>None\<close> of \<open>pointer option\<close>.
\<close>

record pointer =
  block :: nat
  byte_off :: nat

text \<open>
  What the program raises: \<^verbatim>\<open>new\<close> throws \<^verbatim>\<open>std::bad_alloc\<close> when the system has no
  memory left; indexing \<^verbatim>\<open>m_chunks\<close> beyond its end is undefined in C++ and is an
  error value here.
\<close>

datatype error = BadAlloc | OutOfRange

text \<open>
  The system allocator is a parameter of the program. It is modelled by the number of
  blocks handed out so far, which names the next fresh block, and by the number of
  \<^verbatim>\<open>uint64_t\<close> elements the system can still supply.
\<close>

record heap =
  next_block :: nat
  free_slots :: nat

text \<open>\<^verbatim>\<open>new uint64_t[len]\<close>: a fresh block, or \<^verbatim>\<open>std::bad_alloc\<close>.\<close>

definition new_uint64_array :: "heap \<Rightarrow> size_t \<Rightarrow> error + (pointer \<times> heap)" where
  "new_uint64_array h len =
     (if unat len \<le> free_slots h
      then Inr (\<lparr>block = next_block h, byte_off = 0\<rparr>,
                h\<lparr>next_block := Suc (next_block h), free_slots := free_slots h - unat len\<rparr>)
      else Inl BadAlloc)"

text \<open>
  Pointer arithmetic on a \<^verbatim>\<open>uint64_t*\<close>: \<^verbatim>\<open>p + k\<close> moves by \<open>k\<close> elements of
  \<^verbatim>\<open>sizeof(uint64_t)\<close> bytes, which is 8.
\<close>

definition ptr_add :: "pointer \<Rightarrow> size_t \<Rightarrow> pointer" where
  "ptr_add p k = p\<lparr>byte_off := byte_off p + 8 * unat k\<rparr>"

subsection \<open>The pool\<close>

text \<open>\<^verbatim>\<open>Chunk<uint64_t>\<close>; the field \<^verbatim>\<open>size\<close> is \<open>size_c\<close> here.\<close>

record chunk =
  ptr :: pointer
  wmark :: size_t
  size_c :: size_t

text \<open>
  \<^verbatim>\<open>MemoryPoolImpl\<close> without its lock and its configuration set, whose two values
  are arguments of the constructor.
\<close>

record pool =
  m_chunks :: "chunk list"
  m_index :: nat
  m_can_expand :: bool

definition chunksize :: size_t where
  "chunksize = 64 * 1024"

text \<open>
  \<^verbatim>\<open>expand\<close> and \<^verbatim>\<open>allocate\<close>. In both, \<^verbatim>\<open>sizeof(uint64_t)\<close> is written 8, and the
  comparison \<^verbatim>\<open>wmark + n > size\<close> is the unsigned one of 64-bit words. The code after the
  \<^verbatim>\<open>if\<close> of \<^verbatim>\<open>allocate\<close> runs on the state that \<^verbatim>\<open>expand\<close> left, or on the state as it
  was when the chunk had room.
\<close>

definition expand :: "heap \<Rightarrow> pool \<Rightarrow> size_t \<Rightarrow> error + (heap \<times> pool)" where
  "expand h p bytes =
     (let len = max ((bytes + 8 - 1) div 8) chunksize
      in case new_uint64_array h len of
           Inl e \<Rightarrow> Inl e
         | Inr (a, h') \<Rightarrow>
             (let cs = m_chunks p @ [\<lparr>ptr = a, wmark = 0, size_c = len\<rparr>]
              in Inr (h', p\<lparr>m_chunks := cs, m_index := length cs - 1\<rparr>)))"

definition allocate ::
  "heap \<Rightarrow> pool \<Rightarrow> size_t \<Rightarrow> bool \<Rightarrow> error + (pointer option \<times> heap \<times> pool)" where
  "allocate h p bytes can_expand =
     (let n = (bytes + 8 - 1) div 8
      in if length (m_chunks p) < m_index p then Inl OutOfRange
         else
           (let full = (m_index p = length (m_chunks p)
                        \<or> size_c (m_chunks p ! m_index p) < wmark (m_chunks p ! m_index p) + n)
            in if full \<and> \<not> can_expand then Inr (None, h, p)
               else
                 (case (if full then expand h p bytes else Inr (h, p)) of
                    Inl e \<Rightarrow> Inl e
                  | Inr (h', p') \<Rightarrow>
                      (let c = m_chunks p' ! m_index p';
                           r = ptr_add (ptr c) (wmark c)
                       in Inr (Some r, h',
                               p'\<lparr>m_chunks := (m_chunks p')[m_index p' := c\<lparr>wmark := wmark c + n\<rparr>]\<rparr>)))))"

text \<open>The constructor of \<^verbatim>\<open>MemoryPoolImpl\<close>, given the two configuration values.\<close>

definition MemoryPoolImpl :: "heap \<Rightarrow> size_t \<Rightarrow> bool \<Rightarrow> error + (heap \<times> pool)" where
  "MemoryPoolImpl h pool_size can_expand =
     expand h \<lparr>m_chunks = [], m_index = 0, m_can_expand = can_expand\<rparr> pool_size"

text \<open>The defaults of \<^verbatim>\<open>s_configdata\<close>.\<close>

definition default_pool_size :: size_t where
  "default_pool_size = 2097152"

definition default_can_expand :: bool where
  "default_can_expand = True"

text \<open>\<^verbatim>\<open>MemoryPool::MemoryPool()\<close> and \<^verbatim>\<open>MemoryPool::MemoryPool(size_t bytes)\<close>.\<close>

definition MemoryPool :: "heap \<Rightarrow> size_t \<Rightarrow> bool \<Rightarrow> error + (heap \<times> pool)" where
  "MemoryPool h pool_size can_expand = MemoryPoolImpl h pool_size can_expand"

definition MemoryPool_bytes ::
  "heap \<Rightarrow> size_t \<Rightarrow> bool \<Rightarrow> size_t \<Rightarrow> error + (heap \<times> pool)" where
  "MemoryPool_bytes h pool_size can_expand bytes =
     (case MemoryPoolImpl h pool_size can_expand of
        Inl e \<Rightarrow> Inl e
      | Inr (h', p) \<Rightarrow> expand h' p bytes)"

text \<open>\<^verbatim>\<open>MemoryPool::allocate\<close>.\<close>

definition MemoryPool_allocate ::
  "heap \<Rightarrow> pool \<Rightarrow> size_t \<Rightarrow> error + (pointer option \<times> heap \<times> pool)" where
  "MemoryPool_allocate h p bytes = allocate h p bytes (m_can_expand p)"

subsection \<open>Vocabulary of the properties\<close>

text \<open>The slot count that \<^verbatim>\<open>expand\<close> and \<^verbatim>\<open>allocate\<close> both compute from a byte count.\<close>

definition slot_count :: "size_t \<Rightarrow> size_t" where
  "slot_count bytes = (bytes + 8 - 1) div 8"

text \<open>
  A sequence of calls of the public \<^verbatim>\<open>allocate\<close>, each on the state the one before
  left. Every call is recorded with its result and the byte count requested. An
  exception ends the run.
\<close>

fun allocate_seq ::
  "heap \<Rightarrow> pool \<Rightarrow> size_t list \<Rightarrow> error + ((pointer option \<times> size_t) list \<times> heap \<times> pool)" where
  "allocate_seq h p [] = Inr ([], h, p)"
| "allocate_seq h p (b # bs) =
     (case MemoryPool_allocate h p b of
        Inl e \<Rightarrow> Inl e
      | Inr (r, h', p') \<Rightarrow>
          (case allocate_seq h' p' bs of
             Inl e \<Rightarrow> Inl e
           | Inr (rs, h'', p'') \<Rightarrow> Inr ((r, b) # rs, h'', p'')))"

text \<open>
  The bytes of a region of \<open>n\<close> slots that starts at a pointer, as pairs of a block and
  a byte offset. Two arrays from different calls of \<^verbatim>\<open>new\<close> share no byte.
\<close>

definition region :: "pointer \<Rightarrow> size_t \<Rightarrow> (nat \<times> nat) set" where
  "region q n = {block q} \<times> {byte_off q ..< byte_off q + 8 * unat n}"

text \<open>
  The region a recorded call returned: it starts at the pointer returned and is as long
  as the byte count requested, rounded up to whole words over the natural numbers. It
  is empty for a null result.
\<close>

definition region_of :: "pointer option \<times> size_t \<Rightarrow> (nat \<times> nat) set" where
  "region_of out =
     (case fst out of
        None \<Rightarrow> {}
      | Some q \<Rightarrow> {block q} \<times> {byte_off q ..< byte_off q + 8 * ((unat (snd out) + 7) div 8)})"

text \<open>
  The slots a recorded call set aside for its result: as many as the slot count that
  \<^verbatim>\<open>allocate\<close> computed, which is less than the region when the count wrapped.
\<close>

definition reserved_of :: "pointer option \<times> size_t \<Rightarrow> (nat \<times> nat) set" where
  "reserved_of out = (case fst out of None \<Rightarrow> {} | Some q \<Rightarrow> region q (slot_count (snd out)))"

text \<open>The part of the chunks that is below the high-water marks.\<close>

definition used :: "pool \<Rightarrow> (nat \<times> nat) set" where
  "used p = (\<Union>c \<in> set (m_chunks p). region (ptr c) (wmark c))"

text \<open>The buffers of the chunks, each in its full capacity.\<close>

definition buffers :: "pool \<Rightarrow> (nat \<times> nat) set" where
  "buffers p = (\<Union>c \<in> set (m_chunks p). region (ptr c) (size_c c))"

text \<open>
  The invariant of a chunk: the mark is within the capacity, and the capacity is one
  that \<^verbatim>\<open>expand\<close> can have computed (a slot count is below \<open>2 ^ 61\<close>).
\<close>

definition chunk_inv :: "chunk \<Rightarrow> bool" where
  "chunk_inv c \<longleftrightarrow> wmark c \<le> size_c c \<and> unat (size_c c) < 2 ^ 61"

definition pool_inv :: "pool \<Rightarrow> bool" where
  "pool_inv p \<longleftrightarrow> m_index p < length (m_chunks p) \<and> (\<forall>c \<in> set (m_chunks p). chunk_inv c)"

text \<open>
  The invariant that ties the pool to the allocator: every chunk is the start of its
  own block, and the blocks are among those handed out.
\<close>

definition pool_wf :: "heap \<Rightarrow> pool \<Rightarrow> bool" where
  "pool_wf h p \<longleftrightarrow>
     pool_inv p
     \<and> distinct (map (\<lambda>c. block (ptr c)) (m_chunks p))
     \<and> (\<forall>c \<in> set (m_chunks p). block (ptr c) < next_block h \<and> byte_off (ptr c) = 0)"

text \<open>No chunk is removed or resized, and no mark moves back.\<close>

definition marks_mono :: "pool \<Rightarrow> pool \<Rightarrow> bool" where
  "marks_mono p p' \<longleftrightarrow>
     length (m_chunks p) \<le> length (m_chunks p')
     \<and> (\<forall>i < length (m_chunks p).
          ptr (m_chunks p' ! i) = ptr (m_chunks p ! i)
          \<and> size_c (m_chunks p' ! i) = size_c (m_chunks p ! i)
          \<and> unat (wmark (m_chunks p ! i)) \<le> unat (wmark (m_chunks p' ! i)))"

subsection \<open>The sizes of the specification\<close>

text \<open>
  The specification's words for the size of a new chunk, over the natural numbers: the
  slot count is \<open>ceil(bytes / slot_size)\<close>, the default chunk is one of 64 KiB, which is
  8192 slots of 8 bytes, and the capacity is the larger of the two.
\<close>

definition spec_slot_count :: "nat \<Rightarrow> nat" where
  "spec_slot_count bytes = (bytes + 7) div 8"

definition spec_default_chunk_slots :: nat where
  "spec_default_chunk_slots = 64 * 1024 div 8"

definition spec_chunk_capacity :: "nat \<Rightarrow> nat" where
  "spec_chunk_capacity bytes = max (spec_slot_count bytes) spec_default_chunk_slots"

section \<open>Slot arithmetic\<close>

lemma unat_slot_count: "unat (slot_count b) = ((unat b + 7) mod 2 ^ 64) div 8"
proof -
  have "b + 8 - 1 = b + 7" by simp
  then have "slot_count b = (b + 7) div 8"
    by (simp only: slot_count_def)
  then have "unat (slot_count b) = unat (b + 7) div 8"
    by (simp add: unat_div)
  also have "unat (b + 7) = (unat b + 7) mod 2 ^ 64"
    by (simp add: unat_word_ariths)
  finally show ?thesis .
qed

lemma slot_count_bound: "unat (slot_count b) < 2 ^ 61"
proof -
  have "(unat b + 7) mod 2 ^ 64 < (2::nat) ^ 64" by simp
  then have "((unat b + 7) mod 2 ^ 64) div 8 < (2::nat) ^ 61" by simp
  then show ?thesis by (simp add: unat_slot_count)
qed

lemma slot_count_exact:
  assumes "unat b \<le> 2 ^ 64 - 8"
  shows "unat (slot_count b) = (unat b + 7) div 8"
proof -
  from assms have "unat b + 7 < 2 ^ 64" by simp
  then show ?thesis by (simp add: unat_slot_count)
qed

lemma slot_count_wraps:
  assumes "2 ^ 64 - 8 < unat b"
  shows "slot_count b = 0"
proof -
  have ub: "unat b < 2 ^ 64" using unsigned_less [of b] by simp
  from assms have ge: "2 ^ 64 \<le> unat b + 7" by simp
  from ub have lt: "unat b + 7 < 2 ^ 64 + 2 ^ 64" by simp
  have "(unat b + 7) mod 2 ^ 64 = unat b + 7 - 2 ^ 64"
    using ge lt by (simp add: mod_if le_mod_geq)
  also have "\<dots> < 8" using ub by simp
  finally have "((unat b + 7) mod 2 ^ 64) div 8 = 0" by simp
  then have "unat (slot_count b) = 0" by (simp add: unat_slot_count)
  then show ?thesis by (simp add: unat_eq_0)
qed

section \<open>Single calls\<close>

lemma word_sum_fits:
  fixes w n s :: size_t
  assumes "unat w + unat n \<le> unat s"
  shows "unat (w + n) = unat w + unat n" and "\<not> s < w + n"
proof -
  have "unat s < 2 ^ 64" using unsigned_less [of s] by simp
  with assms have "unat w + unat n < 2 ^ LENGTH(64)" by simp
  then show eq: "unat (w + n) = unat w + unat n" by (rule unat_add_lem [THEN iffD1])
  with assms show "\<not> s < w + n" by (simp add: word_less_nat_alt)
qed

lemma word_sum_exceeds:
  fixes w n s :: size_t
  assumes "unat s < 2 ^ 61" and "w \<le> s" and "unat n < 2 ^ 61" and "unat s < unat w + unat n"
  shows "s < w + n"
proof -
  from assms(2) have "unat w \<le> unat s" by (simp add: word_le_nat_alt)
  with assms(1,3) have "unat w + unat n < 2 ^ LENGTH(64)" by simp
  then have "unat (w + n) = unat w + unat n" by (rule unat_add_lem [THEN iffD1])
  with assms(4) show ?thesis by (simp add: word_less_nat_alt)
qed

lemma allocate_unfold:
  "allocate h p bytes ce =
     (if length (m_chunks p) < m_index p then Inl OutOfRange
      else if (m_index p = length (m_chunks p)
               \<or> size_c (m_chunks p ! m_index p) < wmark (m_chunks p ! m_index p) + slot_count bytes)
              \<and> \<not> ce
      then Inr (None, h, p)
      else
        (case (if m_index p = length (m_chunks p)
                  \<or> size_c (m_chunks p ! m_index p) < wmark (m_chunks p ! m_index p) + slot_count bytes
               then expand h p bytes else Inr (h, p)) of
           Inl e \<Rightarrow> Inl e
         | Inr (h', p') \<Rightarrow>
             Inr (Some (ptr_add (ptr (m_chunks p' ! m_index p')) (wmark (m_chunks p' ! m_index p'))), h',
                  p'\<lparr>m_chunks := (m_chunks p')[m_index p' :=
                     (m_chunks p' ! m_index p')\<lparr>wmark := wmark (m_chunks p' ! m_index p') + slot_count bytes\<rparr>]\<rparr>)))"
  unfolding allocate_def slot_count_def Let_def by (rule refl)

lemma allocate_fits:
  assumes idx: "m_index p < length (m_chunks p)"
    and fits: "unat (wmark (m_chunks p ! m_index p)) + unat (slot_count bytes)
               \<le> unat (size_c (m_chunks p ! m_index p))"
  shows "allocate h p bytes ce =
         Inr (Some (ptr_add (ptr (m_chunks p ! m_index p)) (wmark (m_chunks p ! m_index p))), h,
              p\<lparr>m_chunks := (m_chunks p)[m_index p :=
                   (m_chunks p ! m_index p)\<lparr>wmark := wmark (m_chunks p ! m_index p) + slot_count bytes\<rparr>]\<rparr>)"
proof -
  have "\<not> size_c (m_chunks p ! m_index p) < wmark (m_chunks p ! m_index p) + slot_count bytes"
    using fits by (rule word_sum_fits(2))
  with idx show ?thesis
    by (simp add: allocate_unfold)
qed

lemma allocate_exhausted:
  assumes idx: "m_index p < length (m_chunks p)"
    and inv: "chunk_inv (m_chunks p ! m_index p)"
    and less: "unat (size_c (m_chunks p ! m_index p)) - unat (wmark (m_chunks p ! m_index p))
               < unat (slot_count bytes)"
  shows "allocate h p bytes False = Inr (None, h, p)"
proof -
  let ?c = "m_chunks p ! m_index p"
  have "unat (size_c ?c) < unat (wmark ?c) + unat (slot_count bytes)"
    using less by simp
  with inv have "size_c ?c < wmark ?c + slot_count bytes"
    unfolding chunk_inv_def using slot_count_bound [of bytes] by (intro word_sum_exceeds) simp_all
  with idx show ?thesis
    by (simp add: allocate_unfold)
qed

lemma expand_ok:
  assumes "unat (max (slot_count bytes) chunksize) \<le> free_slots h"
  shows "expand h p bytes =
         Inr (h\<lparr>next_block := Suc (next_block h),
                free_slots := free_slots h - unat (max (slot_count bytes) chunksize)\<rparr>,
              p\<lparr>m_chunks := m_chunks p @ [\<lparr>ptr = \<lparr>block = next_block h, byte_off = 0\<rparr>, wmark = 0,
                                           size_c = max (slot_count bytes) chunksize\<rparr>],
                m_index := length (m_chunks p)\<rparr>)"
  using assms by (simp add: expand_def new_uint64_array_def slot_count_def Let_def)

lemma expand_fail:
  assumes "free_slots h < unat (max (slot_count bytes) chunksize)"
  shows "expand h p bytes = Inl BadAlloc"
  using assms by (simp add: expand_def new_uint64_array_def slot_count_def Let_def)

lemma expand_cases:
  "expand h p bytes = Inl BadAlloc \<and> free_slots h < unat (max (slot_count bytes) chunksize)
   \<or> expand h p bytes =
         Inr (h\<lparr>next_block := Suc (next_block h),
                free_slots := free_slots h - unat (max (slot_count bytes) chunksize)\<rparr>,
              p\<lparr>m_chunks := m_chunks p @ [\<lparr>ptr = \<lparr>block = next_block h, byte_off = 0\<rparr>, wmark = 0,
                                           size_c = max (slot_count bytes) chunksize\<rparr>],
                m_index := length (m_chunks p)\<rparr>)
     \<and> unat (max (slot_count bytes) chunksize) \<le> free_slots h"
  using expand_ok [of bytes h p] expand_fail [of h bytes p] by (cases "unat (max (slot_count bytes) chunksize) \<le> free_slots h") simp_all

lemma unat_chunksize: "unat chunksize = 65536"
  by (simp add: chunksize_def)

lemma unat_max_word: "unat (max (a::size_t) b) = max (unat a) (unat b)"
  by (simp add: max_def word_le_nat_alt)

lemma new_len_bound: "unat (max (slot_count bytes) chunksize) < 2 ^ 61"
  using slot_count_bound [of bytes] by (simp add: unat_max_word unat_chunksize)

lemma allocate_grows:
  assumes idx: "m_index p < length (m_chunks p)"
    and inv: "chunk_inv (m_chunks p ! m_index p)"
    and less: "unat (size_c (m_chunks p ! m_index p)) - unat (wmark (m_chunks p ! m_index p))
               < unat (slot_count bytes)"
    and room: "unat (max (slot_count bytes) chunksize) \<le> free_slots h"
  shows "allocate h p bytes True =
         Inr (Some \<lparr>block = next_block h, byte_off = 0\<rparr>,
              h\<lparr>next_block := Suc (next_block h),
                free_slots := free_slots h - unat (max (slot_count bytes) chunksize)\<rparr>,
              p\<lparr>m_chunks := m_chunks p @ [\<lparr>ptr = \<lparr>block = next_block h, byte_off = 0\<rparr>,
                                           wmark = slot_count bytes,
                                           size_c = max (slot_count bytes) chunksize\<rparr>],
                m_index := length (m_chunks p)\<rparr>)"
proof -
  let ?c = "m_chunks p ! m_index p"
  have "unat (size_c ?c) < unat (wmark ?c) + unat (slot_count bytes)"
    using less by simp
  with inv have full: "size_c ?c < wmark ?c + slot_count bytes"
    unfolding chunk_inv_def using slot_count_bound [of bytes] by (intro word_sum_exceeds) simp_all
  from idx full show ?thesis
    by (simp add: allocate_unfold expand_ok [OF room] ptr_add_def)
qed

lemma allocate_bad_alloc:
  assumes idx: "m_index p < length (m_chunks p)"
    and inv: "chunk_inv (m_chunks p ! m_index p)"
    and less: "unat (size_c (m_chunks p ! m_index p)) - unat (wmark (m_chunks p ! m_index p))
               < unat (slot_count bytes)"
    and short: "free_slots h < unat (max (slot_count bytes) chunksize)"
  shows "allocate h p bytes True = Inl BadAlloc"
proof -
  let ?c = "m_chunks p ! m_index p"
  have "unat (size_c ?c) < unat (wmark ?c) + unat (slot_count bytes)"
    using less by simp
  with inv have full: "size_c ?c < wmark ?c + slot_count bytes"
    unfolding chunk_inv_def using slot_count_bound [of bytes] by (intro word_sum_exceeds) simp_all
  from idx full show ?thesis
    by (simp add: allocate_unfold expand_fail [OF short])
qed

section \<open>The invariants\<close>

lemma pool_inv_current:
  assumes "pool_inv p"
  shows "m_index p < length (m_chunks p)" and "chunk_inv (m_chunks p ! m_index p)"
  using assms by (simp_all add: pool_inv_def)

text \<open>The three ways a call can end on a pool that satisfies the invariant, and the exception.\<close>

lemma allocate_cases [consumes 1, case_names fit null grow bad_alloc]:
  assumes inv: "pool_inv p"
  obtains
    "unat (wmark (m_chunks p ! m_index p)) + unat (slot_count bytes)
       \<le> unat (size_c (m_chunks p ! m_index p))"
    "allocate h p bytes ce =
       Inr (Some (ptr_add (ptr (m_chunks p ! m_index p)) (wmark (m_chunks p ! m_index p))), h,
            p\<lparr>m_chunks := (m_chunks p)[m_index p :=
                 (m_chunks p ! m_index p)\<lparr>wmark := wmark (m_chunks p ! m_index p) + slot_count bytes\<rparr>]\<rparr>)"
  | "\<not> ce" "allocate h p bytes ce = Inr (None, h, p)"
  | "ce"
    "allocate h p bytes ce =
       Inr (Some \<lparr>block = next_block h, byte_off = 0\<rparr>,
            h\<lparr>next_block := Suc (next_block h),
              free_slots := free_slots h - unat (max (slot_count bytes) chunksize)\<rparr>,
            p\<lparr>m_chunks := m_chunks p @ [\<lparr>ptr = \<lparr>block = next_block h, byte_off = 0\<rparr>,
                                         wmark = slot_count bytes,
                                         size_c = max (slot_count bytes) chunksize\<rparr>],
              m_index := length (m_chunks p)\<rparr>)"
  | "ce" "allocate h p bytes ce = Inl BadAlloc"
proof -
  let ?c = "m_chunks p ! m_index p"
  note cur = pool_inv_current [OF inv]
  show thesis
  proof (cases "unat (wmark ?c) + unat (slot_count bytes) \<le> unat (size_c ?c)")
    case True
    with that(1) allocate_fits [OF cur(1) True] show ?thesis by blast
  next
    case False
    moreover from cur(2) have "unat (wmark ?c) \<le> unat (size_c ?c)"
      by (simp add: chunk_inv_def word_le_nat_alt)
    ultimately have less: "unat (size_c ?c) - unat (wmark ?c) < unat (slot_count bytes)" by arith
    show ?thesis
    proof (cases ce)
      case False
      with that(2) allocate_exhausted [OF cur less, of h] show ?thesis by simp
    next
      case True
      show ?thesis
      proof (cases "unat (max (slot_count bytes) chunksize) \<le> free_slots h")
        case room: True
        from that(3) True allocate_grows [OF cur less room] show ?thesis by simp
      next
        case False
        then have "free_slots h < unat (max (slot_count bytes) chunksize)" by simp
        from that(4) True allocate_bad_alloc [OF cur less this] show ?thesis by simp
      qed
    qed
  qed
qed

lemma chunk_inv_bump:
  assumes "unat (wmark c) + unat n \<le> unat (size_c c)" and "chunk_inv c"
  shows "chunk_inv (c\<lparr>wmark := wmark c + n\<rparr>)"
  using assms word_sum_fits(1) [OF assms(1)]
  by (simp add: chunk_inv_def word_le_nat_alt)

lemma chunk_inv_new: "chunk_inv \<lparr>ptr = a, wmark = slot_count bytes, size_c = max (slot_count bytes) chunksize\<rparr>"
  using new_len_bound [of bytes] by (simp add: chunk_inv_def)

lemma chunk_inv_fresh: "chunk_inv \<lparr>ptr = a, wmark = 0, size_c = max (slot_count bytes) chunksize\<rparr>"
  using new_len_bound [of bytes] by (simp add: chunk_inv_def)

lemma pool_inv_expand:
  assumes "\<forall>c \<in> set (m_chunks p). chunk_inv c" and "expand h p bytes = Inr (h', p')"
  shows "pool_inv p'"
  using expand_cases [of h p bytes] assms chunk_inv_fresh
  by (auto simp: pool_inv_def)

lemma pool_inv_allocate:
  assumes "pool_inv p" and "allocate h p bytes ce = Inr (r, h', p')"
  shows "pool_inv p'"
  using assms(1)
proof (cases rule: allocate_cases [where h = h and bytes = bytes and ce = ce])
  case fit
  have "chunk_inv c'" if "c' \<in> set ((m_chunks p)[m_index p :=
      (m_chunks p ! m_index p)\<lparr>wmark := wmark (m_chunks p ! m_index p) + slot_count bytes\<rparr>])" for c'
    using that set_update_subset_insert [of "m_chunks p" "m_index p"]
      chunk_inv_bump [OF fit(1) pool_inv_current(2) [OF assms(1)]] assms(1)
    by (auto simp: pool_inv_def)
  with fit(2) assms show ?thesis by (auto simp: pool_inv_def)
next
  case null
  with assms show ?thesis by simp
next
  case grow
  with assms chunk_inv_new show ?thesis by (auto simp: pool_inv_def)
next
  case bad_alloc
  with assms show ?thesis by simp
qed

lemma marks_mono_expand:
  assumes "expand h p bytes = Inr (h', p')"
  shows "marks_mono p p'"
  using expand_cases [of h p bytes] assms
  by (auto simp: marks_mono_def nth_append)

lemma marks_mono_allocate:
  assumes "pool_inv p" and "allocate h p bytes ce = Inr (r, h', p')"
  shows "marks_mono p p'"
  using assms(1)
proof (cases rule: allocate_cases [where h = h and bytes = bytes and ce = ce])
  case fit
  from word_sum_fits(1) [OF fit(1)]
  have "unat (wmark (m_chunks p ! m_index p))
        \<le> unat (wmark (m_chunks p ! m_index p) + slot_count bytes)" by simp
  with fit(2) assms pool_inv_current(1) [OF assms(1)] show ?thesis
    by (auto simp: marks_mono_def nth_list_update)
next
  case null
  with assms show ?thesis by (simp add: marks_mono_def)
next
  case grow
  with assms show ?thesis by (auto simp: marks_mono_def nth_append)
next
  case bad_alloc
  with assms show ?thesis by simp
qed

section \<open>Blocks and regions\<close>

lemma pool_wf_inv: "pool_wf h p \<Longrightarrow> pool_inv p"
  by (simp add: pool_wf_def)

lemma pool_wf_expand:
  assumes "(\<forall>c \<in> set (m_chunks p). chunk_inv c)"
    and "distinct (map (\<lambda>c. block (ptr c)) (m_chunks p))"
    and "\<forall>c \<in> set (m_chunks p). block (ptr c) < next_block h \<and> byte_off (ptr c) = 0"
    and "expand h p bytes = Inr (h', p')"
  shows "pool_wf h' p'"
proof -
  have "pool_inv p'" using assms(1,4) by (rule pool_inv_expand)
  moreover have "next_block h \<notin> (\<lambda>c. block (ptr c)) ` set (m_chunks p)"
    using assms(3) by auto
  ultimately show ?thesis
    using expand_cases [of h p bytes] assms(2,3,4)
    by (auto simp: pool_wf_def less_Suc_eq)
qed

lemma pool_wf_allocate:
  assumes wf: "pool_wf h p" and res: "allocate h p bytes ce = Inr (r, h', p')"
  shows "pool_wf h' p'"
proof -
  note inv = pool_wf_inv [OF wf]
  have inv': "pool_inv p'" using inv res by (rule pool_inv_allocate)
  from inv show ?thesis
  proof (cases rule: allocate_cases [where h = h and bytes = bytes and ce = ce])
    case fit
    let ?c = "m_chunks p ! m_index p"
    let ?cs = "(m_chunks p)[m_index p := ?c\<lparr>wmark := wmark ?c + slot_count bytes\<rparr>]"
    have "map (\<lambda>c. block (ptr c)) ?cs = map (\<lambda>c. block (ptr c)) (m_chunks p)"
      using pool_inv_current(1) [OF inv] by (simp add: map_update list_update_same_conv)
    moreover have "block (ptr c') < next_block h \<and> byte_off (ptr c') = 0" if "c' \<in> set ?cs" for c'
    proof -
      from that set_update_subset_insert [of "m_chunks p" "m_index p"]
      have "c' = ?c\<lparr>wmark := wmark ?c + slot_count bytes\<rparr> \<or> c' \<in> set (m_chunks p)" by blast
      moreover have "?c \<in> set (m_chunks p)"
        using pool_inv_current(1) [OF inv] by (rule nth_mem)
      ultimately show ?thesis using wf by (auto simp: pool_wf_def)
    qed
    ultimately show ?thesis
      using fit(2) res wf inv' by (auto simp: pool_wf_def)
  next
    case null
    with res wf show ?thesis by simp
  next
    case grow
    have "next_block h \<notin> (\<lambda>c. block (ptr c)) ` set (m_chunks p)"
      using wf by (auto simp: pool_wf_def)
    with grow(2) res wf inv' show ?thesis
      by (auto simp: pool_wf_def less_Suc_eq)
  next
    case bad_alloc
    with res show ?thesis by simp
  qed
qed

lemma region_split:
  assumes "unat (w + n) = unat w + unat n"
  shows "region a (w + n) = region a w \<union> region (ptr_add a w) n"
  using assms by (auto simp: region_def ptr_add_def)

lemma region_apart: "region a w \<inter> region (ptr_add a w) n = {}"
  by (auto simp: region_def ptr_add_def)

lemma region_other_block: "block a \<noteq> block b \<Longrightarrow> region a w \<inter> region b n = {}"
  by (auto simp: region_def)

lemma used_nth: "x \<in> used p \<longleftrightarrow> (\<exists>i < length (m_chunks p). x \<in> region (ptr (m_chunks p ! i)) (wmark (m_chunks p ! i)))"
  by (auto simp: used_def Bex_def in_set_conv_nth)

text \<open>
  What one call does to the used part of the pool: the region returned was unused, and
  is used afterwards together with all that was.
\<close>

lemma used_allocate:
  assumes wf: "pool_wf h p" and res: "allocate h p bytes ce = Inr (r, h', p')"
  shows "reserved_of (r, bytes) \<inter> used p = {}"
    and "used p' = used p \<union> reserved_of (r, bytes)"
proof -
  note inv = pool_wf_inv [OF wf]
  note idx = pool_inv_current(1) [OF inv]
  let ?c = "m_chunks p ! m_index p"
  let ?n = "slot_count bytes"
  have "reserved_of (r, bytes) \<inter> used p = {} \<and> used p' = used p \<union> reserved_of (r, bytes)"
    using inv
  proof (cases rule: allocate_cases [where h = h and bytes = bytes and ce = ce])
    case fit
    let ?q = "ptr_add (ptr ?c) (wmark ?c)"
    from fit(2) res have r: "r = Some ?q"
      and p': "p' = p\<lparr>m_chunks := (m_chunks p)[m_index p := ?c\<lparr>wmark := wmark ?c + ?n\<rparr>]\<rparr>"
      by simp_all
    have split: "region (ptr ?c) (wmark ?c + ?n) = region (ptr ?c) (wmark ?c) \<union> region ?q ?n"
      using word_sum_fits(1) [OF fit(1)] by (rule region_split)
    have other: "region ?q ?n \<inter> region (ptr (m_chunks p ! i)) (wmark (m_chunks p ! i)) = {}"
      if "i < length (m_chunks p)" for i
    proof (cases "i = m_index p")
      case True
      then show ?thesis using region_apart [of "ptr ?c" "wmark ?c" ?n] by (simp add: Int_commute)
    next
      case False
      from wf have "distinct (map (\<lambda>c. block (ptr c)) (m_chunks p))" by (simp add: pool_wf_def)
      with False that idx have "block (ptr (m_chunks p ! i)) \<noteq> block (ptr ?c)"
        by (simp add: distinct_conv_nth)
      then have "block ?q \<noteq> block (ptr (m_chunks p ! i))" by (simp add: ptr_add_def)
      then show ?thesis by (rule region_other_block)
    qed
    have "x \<notin> used p" if "x \<in> region ?q ?n" for x
      using that other unfolding used_nth by blast
    then have "region ?q ?n \<inter> used p = {}" by blast
    moreover have "used p' = used p \<union> region ?q ?n"
    proof (rule set_eqI)
      fix x
      let ?cs = "(m_chunks p)[m_index p := ?c\<lparr>wmark := wmark ?c + ?n\<rparr>]"
      have here: "region (ptr (?cs ! m_index p)) (wmark (?cs ! m_index p))
                  = region (ptr ?c) (wmark ?c) \<union> region ?q ?n"
        using idx split by simp
      have there: "?cs ! i = m_chunks p ! i" if "i \<noteq> m_index p" for i
        using that by simp
      have mem: "x \<in> used p' \<longleftrightarrow>
                 (\<exists>i < length (m_chunks p). x \<in> region (ptr (?cs ! i)) (wmark (?cs ! i)))"
        unfolding used_nth p' by simp
      show "x \<in> used p' \<longleftrightarrow> x \<in> used p \<union> region ?q ?n"
      proof
        assume "x \<in> used p'"
        then obtain i where i: "i < length (m_chunks p)"
          and x: "x \<in> region (ptr (?cs ! i)) (wmark (?cs ! i))"
          unfolding mem by blast
        show "x \<in> used p \<union> region ?q ?n"
        proof (cases "i = m_index p")
          case True
          with x here have "x \<in> region (ptr ?c) (wmark ?c) \<union> region ?q ?n" by simp
          with idx show ?thesis unfolding Un_iff used_nth by blast
        next
          case False
          with x there have "x \<in> region (ptr (m_chunks p ! i)) (wmark (m_chunks p ! i))" by simp
          with i show ?thesis unfolding Un_iff used_nth by blast
        qed
      next
        assume "x \<in> used p \<union> region ?q ?n"
        then consider i where "i < length (m_chunks p)"
            "x \<in> region (ptr (m_chunks p ! i)) (wmark (m_chunks p ! i))"
          | "x \<in> region ?q ?n"
          unfolding Un_iff used_nth by blast
        then show "x \<in> used p'"
        proof cases
          case (1 i)
          show ?thesis
          proof (cases "i = m_index p")
            case True
            with 1(2) here have "x \<in> region (ptr (?cs ! m_index p)) (wmark (?cs ! m_index p))"
              by simp
            with idx show ?thesis unfolding mem by blast
          next
            case False
            with 1(2) there have "x \<in> region (ptr (?cs ! i)) (wmark (?cs ! i))" by simp
            with 1(1) show ?thesis unfolding mem by blast
          qed
        next
          case 2
          with here have "x \<in> region (ptr (?cs ! m_index p)) (wmark (?cs ! m_index p))" by simp
          with idx show ?thesis unfolding mem by blast
        qed
      qed
    qed
    ultimately show ?thesis by (simp add: r reserved_of_def)
  next
    case null
    with res show ?thesis by (simp add: reserved_of_def)
  next
    case grow
    let ?q = "\<lparr>block = next_block h, byte_off = 0\<rparr>"
    from grow(2) res have r: "r = Some ?q"
      and p': "p' = p\<lparr>m_chunks := m_chunks p @ [\<lparr>ptr = ?q, wmark = ?n, size_c = max ?n chunksize\<rparr>],
                       m_index := length (m_chunks p)\<rparr>"
      by simp_all
    have "region ?q ?n \<inter> region (ptr c) (wmark c) = {}" if "c \<in> set (m_chunks p)" for c
    proof -
      from wf that have "block (ptr c) < next_block h" by (simp add: pool_wf_def)
      then have "block ?q \<noteq> block (ptr c)" by simp
      then show ?thesis by (rule region_other_block)
    qed
    then have "region ?q ?n \<inter> used p = {}" by (auto simp: used_def)
    moreover have "used p' = used p \<union> region ?q ?n"
      by (auto simp: p' used_def)
    ultimately show ?thesis by (simp add: r reserved_of_def)
  next
    case bad_alloc
    with res show ?thesis by simp
  qed
  then show "reserved_of (r, bytes) \<inter> used p = {}"
    and "used p' = used p \<union> reserved_of (r, bytes)" by simp_all
qed

section \<open>Sequences of calls\<close>

lemma allocate_seq_Cons_Inr:
  assumes "allocate_seq h p (b # bs) = Inr (outs, h', p')"
  obtains r h1 p1 rs where "MemoryPool_allocate h p b = Inr (r, h1, p1)"
    and "allocate_seq h1 p1 bs = Inr (rs, h', p')" and "outs = (r, b) # rs"
  using assms by (auto split: sum.splits)

lemma allocate_seq_invariant:
  assumes "pool_wf h p" and "allocate_seq h p bs = Inr (outs, h', p')"
  shows "pool_wf h' p'
       \<and> used p' = used p \<union> \<Union> (reserved_of ` set outs)
       \<and> (\<forall>out \<in> set outs. reserved_of out \<inter> used p = {})
       \<and> sorted_wrt (\<lambda>a b. reserved_of a \<inter> reserved_of b = {}) outs
       \<and> map snd outs = bs"
  using assms
proof (induction bs arbitrary: h p outs)
  case Nil
  then show ?case by simp
next
  case (Cons b bs)
  from Cons.prems(2) obtain r h1 p1 rs
    where step: "MemoryPool_allocate h p b = Inr (r, h1, p1)"
      and rest: "allocate_seq h1 p1 bs = Inr (rs, h', p')"
      and outs: "outs = (r, b) # rs"
    by (rule allocate_seq_Cons_Inr)
  from step have res: "allocate h p b (m_can_expand p) = Inr (r, h1, p1)"
    by (simp add: MemoryPool_allocate_def)
  have wf1: "pool_wf h1 p1" using Cons.prems(1) res by (rule pool_wf_allocate)
  have new: "reserved_of (r, b) \<inter> used p = {}"
    and u1: "used p1 = used p \<union> reserved_of (r, b)"
    using used_allocate [OF Cons.prems(1) res] by simp_all
  from Cons.IH [OF wf1 rest]
  have wf': "pool_wf h' p'"
    and u': "used p' = used p1 \<union> \<Union> (reserved_of ` set rs)"
    and apart: "\<forall>out \<in> set rs. reserved_of out \<inter> used p1 = {}"
    and sorted: "sorted_wrt (\<lambda>a b. reserved_of a \<inter> reserved_of b = {}) rs"
    and reqs: "map snd rs = bs"
    by simp_all
  have "used p' = used p \<union> \<Union> (reserved_of ` set outs)"
    using u' u1 outs by auto
  moreover have "\<forall>out \<in> set outs. reserved_of out \<inter> used p = {}"
    using apart new u1 outs by auto
  moreover have "\<forall>out \<in> set rs. reserved_of (r, b) \<inter> reserved_of out = {}"
    using apart u1 by auto
  ultimately show ?case
    using wf' sorted reqs outs by simp
qed

lemma MemoryPool_wf:
  assumes "MemoryPool h0 pool_size ce = Inr (h, p)"
  shows "pool_wf h p"
proof -
  from assms have "expand h0 \<lparr>m_chunks = [], m_index = 0, m_can_expand = ce\<rparr> pool_size = Inr (h, p)"
    by (simp add: MemoryPool_def MemoryPoolImpl_def)
  then show ?thesis by (intro pool_wf_expand [of _ h0 pool_size h]) simp_all
qed

lemma expand_wf:
  assumes "pool_wf h p" and "expand h p bytes = Inr (h', p')"
  shows "pool_wf h' p'"
  using assms by (intro pool_wf_expand [of p h bytes]) (simp_all add: pool_wf_def pool_inv_def)

lemma MemoryPool_bytes_wf:
  assumes "MemoryPool_bytes h0 pool_size ce bytes = Inr (h, p)"
  shows "pool_wf h p"
proof -
  from assms obtain h1 p1 where c: "MemoryPoolImpl h0 pool_size ce = Inr (h1, p1)"
    and e: "expand h1 p1 bytes = Inr (h, p)"
    by (auto simp: MemoryPool_bytes_def split: sum.splits)
  from c have "pool_wf h1 p1" using MemoryPool_wf by (simp add: MemoryPool_def)
  then show ?thesis using e by (rule expand_wf)
qed

lemma used_within_buffers:
  assumes "pool_wf h p"
  shows "used p \<subseteq> buffers p"
proof -
  have "region (ptr c) (wmark c) \<subseteq> region (ptr c) (size_c c)" if "c \<in> set (m_chunks p)" for c
  proof -
    from assms that have "unat (wmark c) \<le> unat (size_c c)"
      by (simp add: pool_wf_def pool_inv_def chunk_inv_def word_le_nat_alt)
    then show ?thesis by (auto simp: region_def)
  qed
  then show ?thesis unfolding used_def buffers_def by blast
qed

lemma allocate_aligned:
  assumes wf: "pool_wf h p" and res: "allocate h p bytes ce = Inr (Some q, h', p')"
  shows "byte_off q mod 8 = 0"
  using pool_wf_inv [OF wf]
proof (cases rule: allocate_cases [where h = h and bytes = bytes and ce = ce])
  case fit
  have "m_chunks p ! m_index p \<in> set (m_chunks p)"
    using pool_inv_current(1) [OF pool_wf_inv [OF wf]] by (rule nth_mem)
  with wf have "byte_off (ptr (m_chunks p ! m_index p)) = 0" by (simp add: pool_wf_def)
  with fit(2) res show ?thesis by (auto simp: ptr_add_def)
next
  case null
  with res show ?thesis by simp
next
  case grow
  with res show ?thesis by auto
next
  case bad_alloc
  with res show ?thesis by simp
qed

lemma allocate_seq_aligned:
  assumes "pool_wf h p" and "allocate_seq h p bs = Inr (outs, h', p')"
  shows "\<forall>out \<in> set outs. \<forall>q. fst out = Some q \<longrightarrow> byte_off q mod 8 = 0"
  using assms
proof (induction bs arbitrary: h p outs)
  case Nil
  then show ?case by simp
next
  case (Cons b bs)
  from Cons.prems(2) obtain r h1 p1 rs
    where step: "MemoryPool_allocate h p b = Inr (r, h1, p1)"
      and rest: "allocate_seq h1 p1 bs = Inr (rs, h', p')"
      and outs: "outs = (r, b) # rs"
    by (rule allocate_seq_Cons_Inr)
  from step have res: "allocate h p b (m_can_expand p) = Inr (r, h1, p1)"
    by (simp add: MemoryPool_allocate_def)
  have wf1: "pool_wf h1 p1" using Cons.prems(1) res by (rule pool_wf_allocate)
  have "byte_off q mod 8 = 0" if "r = Some q" for q
    using allocate_aligned [OF Cons.prems(1)] res that by simp
  with Cons.IH [OF wf1 rest] outs show ?case by simp
qed

text \<open>Requests that fit together in the current chunk are all served from it.\<close>

lemma allocate_seq_fits:
  assumes "m_index p < length (m_chunks p)"
    and "unat (wmark (m_chunks p ! m_index p)) + (\<Sum>b\<leftarrow>bs. unat (slot_count b))
         \<le> unat (size_c (m_chunks p ! m_index p))"
  shows "\<exists>outs p'. allocate_seq h p bs = Inr (outs, h, p')
           \<and> length (m_chunks p') = length (m_chunks p)
           \<and> (\<forall>out \<in> set outs. fst out \<noteq> None)"
  using assms
proof (induction bs arbitrary: p)
  case Nil
  then show ?case by simp
next
  case (Cons b bs)
  let ?c = "m_chunks p ! m_index p"
  let ?p1 = "p\<lparr>m_chunks := (m_chunks p)[m_index p := ?c\<lparr>wmark := wmark ?c + slot_count b\<rparr>]\<rparr>"
  from Cons.prems(2) have fits: "unat (wmark ?c) + unat (slot_count b) \<le> unat (size_c ?c)"
    by simp
  have step: "MemoryPool_allocate h p b = Inr (Some (ptr_add (ptr ?c) (wmark ?c)), h, ?p1)"
    unfolding MemoryPool_allocate_def using Cons.prems(1) fits by (rule allocate_fits)
  have sum: "unat (wmark ?c + slot_count b) = unat (wmark ?c) + unat (slot_count b)"
    using fits by (rule word_sum_fits(1))
  have idx1: "m_index ?p1 < length (m_chunks ?p1)" using Cons.prems(1) by simp
  have "unat (wmark (m_chunks ?p1 ! m_index ?p1)) + (\<Sum>b\<leftarrow>bs. unat (slot_count b))
        \<le> unat (size_c (m_chunks ?p1 ! m_index ?p1))"
    using Cons.prems sum by simp
  from Cons.IH [OF idx1 this] obtain outs p'
    where "allocate_seq h ?p1 bs = Inr (outs, h, p')"
      and "length (m_chunks p') = length (m_chunks ?p1)"
      and "\<forall>out \<in> set outs. fst out \<noteq> None"
    by blast
  with step show ?case by simp
qed

text \<open>Requests that each exceed what is left are all refused when growth is off.\<close>

lemma allocate_seq_exhausted:
  assumes "pool_inv p" and "\<not> m_can_expand p"
    and "\<forall>b \<in> set bs. unat (size_c (m_chunks p ! m_index p)) - unat (wmark (m_chunks p ! m_index p))
                        < unat (slot_count b)"
  shows "allocate_seq h p bs = Inr (map (\<lambda>b. (None, b)) bs, h, p)"
  using assms(3)
proof (induction bs)
  case Nil
  then show ?case by simp
next
  case (Cons b bs)
  have "MemoryPool_allocate h p b = Inr (None, h, p)"
    unfolding MemoryPool_allocate_def using assms(2) Cons.prems
      allocate_exhausted [OF pool_inv_current [OF assms(1)], of b h]
    by simp
  with Cons show ?case by simp
qed

text \<open>Where the slot count did not wrap, a call set aside exactly the region it returned.\<close>

lemma region_of_reserved:
  assumes "unat (snd out) \<le> 2 ^ 64 - 8"
  shows "region_of out = reserved_of out"
  using slot_count_exact [OF assms]
  by (simp add: region_of_def reserved_of_def region_def split: option.splits)

lemma allocate_seq_regions:
  assumes wf: "pool_wf h p" and run: "allocate_seq h p bs = Inr (outs, h', p')"
    and small: "\<forall>b \<in> set bs. unat b \<le> 2 ^ 64 - 8"
  shows "\<forall>j < length outs. region_of (outs ! j) \<subseteq> buffers p'
           \<and> (\<forall>i < j. region_of (outs ! i) \<inter> region_of (outs ! j) = {})"
proof (intro allI impI conjI)
  from allocate_seq_invariant [OF wf run]
  have wf': "pool_wf h' p'"
    and u: "used p' = used p \<union> \<Union> (reserved_of ` set outs)"
    and apart: "sorted_wrt (\<lambda>a b. reserved_of a \<inter> reserved_of b = {}) outs"
    and reqs: "map snd outs = bs"
    by simp_all
  have same: "region_of (outs ! k) = reserved_of (outs ! k)" if "k < length outs" for k
  proof -
    from that have "snd (outs ! k) \<in> set (map snd outs)" by simp
    with small reqs have "unat (snd (outs ! k)) \<le> 2 ^ 64 - 8" by simp
    then show ?thesis by (rule region_of_reserved)
  qed
  fix j assume j: "j < length outs"
  then have "outs ! j \<in> set outs" by (rule nth_mem)
  with u have "reserved_of (outs ! j) \<subseteq> used p'" by blast
  with used_within_buffers [OF wf'] show "region_of (outs ! j) \<subseteq> buffers p'"
    by (simp add: same [OF j])
  fix i assume i: "i < j"
  with apart j have "reserved_of (outs ! i) \<inter> reserved_of (outs ! j) = {}"
    by (simp add: sorted_wrt_iff_nth_less)
  with i j show "region_of (outs ! i) \<inter> region_of (outs ! j) = {}"
    by (simp add: same)
qed

section \<open>The properties of the specification\<close>

subsection \<open>Successful bump allocation\<close>

text \<open>
  Claim C5. Whenever a current chunk exists and its remaining capacity, the capacity
  minus the high-water mark, is at least the slot count \<open>n\<close> of the request (also when it
  is exactly \<open>n\<close>), \<^verbatim>\<open>allocate\<close> returns the address at offset \<open>wmark\<close> in the buffer of
  the current chunk and advances the mark of that chunk by exactly \<open>n\<close>, without
  wrapping. The allocator is not called, no chunk is added and the other chunks are
  unchanged. This holds whether or not growth is permitted. The condition is written
  as \<open>wmark + n \<le> size\<close> over the natural numbers.
\<close>

theorem bump_allocation:
  assumes "m_index p < length (m_chunks p)"
    and "unat (wmark (m_chunks p ! m_index p)) + unat (slot_count bytes)
         \<le> unat (size_c (m_chunks p ! m_index p))"
  shows "allocate h p bytes ce
           = Inr (Some (ptr_add (ptr (m_chunks p ! m_index p)) (wmark (m_chunks p ! m_index p))), h,
                  p\<lparr>m_chunks := (m_chunks p)[m_index p :=
                       (m_chunks p ! m_index p)\<lparr>wmark := wmark (m_chunks p ! m_index p)
                                                         + slot_count bytes\<rparr>]\<rparr>)
       \<and> unat (wmark (m_chunks p ! m_index p) + slot_count bytes)
           = unat (wmark (m_chunks p ! m_index p)) + unat (slot_count bytes)
       \<and> (\<forall>i < length (m_chunks p). i \<noteq> m_index p \<longrightarrow>
             (m_chunks p)[m_index p :=
                (m_chunks p ! m_index p)\<lparr>wmark := wmark (m_chunks p ! m_index p)
                                                  + slot_count bytes\<rparr>] ! i
             = m_chunks p ! i)"
proof -
  let ?c = "m_chunks p ! m_index p"
  let ?p' = "p\<lparr>m_chunks := (m_chunks p)[m_index p := ?c\<lparr>wmark := wmark ?c + slot_count bytes\<rparr>]\<rparr>"
  have "allocate h p bytes ce = Inr (Some (ptr_add (ptr ?c) (wmark ?c)), h, ?p')"
    using assms by (rule allocate_fits)
  moreover have "unat (wmark ?c + slot_count bytes) = unat (wmark ?c) + unat (slot_count bytes)"
    using assms(2) by (rule word_sum_fits(1))
  ultimately show ?thesis by simp
qed

theorem bump_allocation_witness:
  "allocate \<lparr>next_block = 2, free_slots = 0\<rparr>
       \<lparr>m_chunks = [\<lparr>ptr = \<lparr>block = 0, byte_off = 0\<rparr>, wmark = 65530, size_c = 65536\<rparr>,
                    \<lparr>ptr = \<lparr>block = 1, byte_off = 0\<rparr>, wmark = 65528, size_c = 65536\<rparr>],
        m_index = 1, m_can_expand = False\<rparr> 64 False
     = Inr (Some \<lparr>block = 1, byte_off = 524224\<rparr>, \<lparr>next_block = 2, free_slots = 0\<rparr>,
            \<lparr>m_chunks = [\<lparr>ptr = \<lparr>block = 0, byte_off = 0\<rparr>, wmark = 65530, size_c = 65536\<rparr>,
                         \<lparr>ptr = \<lparr>block = 1, byte_off = 0\<rparr>, wmark = 65536, size_c = 65536\<rparr>],
             m_index = 1, m_can_expand = False\<rparr>)"
  using bump_allocation [of
      "\<lparr>m_chunks = [\<lparr>ptr = \<lparr>block = 0, byte_off = 0\<rparr>, wmark = 65530, size_c = 65536\<rparr>,
                   \<lparr>ptr = \<lparr>block = 1, byte_off = 0\<rparr>, wmark = 65528, size_c = 65536\<rparr>],
        m_index = 1, m_can_expand = False\<rparr>" 64 "\<lparr>next_block = 2, free_slots = 0\<rparr>" False]
  by (simp add: slot_count_def ptr_add_def)

subsection \<open>Scenario A\<close>

text \<open>
  Claim C1 says that with \<^verbatim>\<open>pool_size = 128\<close> and \<^verbatim>\<open>can_expand = false\<close> two calls
  \<^verbatim>\<open>allocate(64)\<close> fill the chunk and a third call \<^verbatim>\<open>allocate(8)\<close> returns null. The
  constructor calls \<^verbatim>\<open>expand(128)\<close>, which takes the maximum of 16 slots and
  \<^verbatim>\<open>chunksize\<close>: the chunk has 65536 slots, and the third call is served at byte 128.
\<close>

theorem scenario_A_counterexample:
  "MemoryPool \<lparr>next_block = 0, free_slots = 65536\<rparr> 128 False
     = Inr (\<lparr>next_block = 1, free_slots = 0\<rparr>,
            \<lparr>m_chunks = [\<lparr>ptr = \<lparr>block = 0, byte_off = 0\<rparr>, wmark = 0, size_c = 65536\<rparr>],
             m_index = 0, m_can_expand = False\<rparr>)
   \<and> allocate_seq \<lparr>next_block = 1, free_slots = 0\<rparr>
        \<lparr>m_chunks = [\<lparr>ptr = \<lparr>block = 0, byte_off = 0\<rparr>, wmark = 0, size_c = 65536\<rparr>],
         m_index = 0, m_can_expand = False\<rparr> [64, 64, 8]
     = Inr ([(Some \<lparr>block = 0, byte_off = 0\<rparr>, 64),
             (Some \<lparr>block = 0, byte_off = 64\<rparr>, 64),
             (Some \<lparr>block = 0, byte_off = 128\<rparr>, 8)],
            \<lparr>next_block = 1, free_slots = 0\<rparr>,
            \<lparr>m_chunks = [\<lparr>ptr = \<lparr>block = 0, byte_off = 0\<rparr>, wmark = 17, size_c = 65536\<rparr>],
             m_index = 0, m_can_expand = False\<rparr>)"
  by (simp add: MemoryPool_def MemoryPoolImpl_def expand_def new_uint64_array_def chunksize_def
      MemoryPool_allocate_def allocate_def ptr_add_def Let_def)

text \<open>
  Claim C1, amended. With \<^verbatim>\<open>pool_size = 128\<close> and \<^verbatim>\<open>can_expand = false\<close>, and a system
  that supplies the 65536 slots of the first chunk, the new pool holds one chunk of 65536
  slots. \<^verbatim>\<open>allocate(64)\<close> succeeds and consumes 8 slots; a second \<^verbatim>\<open>allocate(64)\<close>
  succeeds and consumes 8 more, which leaves the mark at 16 of 65536; the third call
  \<^verbatim>\<open>allocate(8)\<close> succeeds too: it returns the address 128 bytes into the chunk and
  consumes one slot.
\<close>

theorem scenario_A:
  assumes "65536 \<le> free_slots h0"
  shows "\<exists>h p0 p1 p2 p3.
           MemoryPool h0 128 False = Inr (h, p0)
         \<and> map size_c (m_chunks p0) = [65536] \<and> map wmark (m_chunks p0) = [0]
         \<and> MemoryPool_allocate h p0 64 = Inr (Some \<lparr>block = next_block h0, byte_off = 0\<rparr>, h, p1)
         \<and> map size_c (m_chunks p1) = [65536] \<and> map wmark (m_chunks p1) = [8]
         \<and> MemoryPool_allocate h p1 64 = Inr (Some \<lparr>block = next_block h0, byte_off = 64\<rparr>, h, p2)
         \<and> map size_c (m_chunks p2) = [65536] \<and> map wmark (m_chunks p2) = [16]
         \<and> MemoryPool_allocate h p2 8 = Inr (Some \<lparr>block = next_block h0, byte_off = 128\<rparr>, h, p3)
         \<and> map size_c (m_chunks p3) = [65536] \<and> map wmark (m_chunks p3) = [17]"
proof -
  let ?a = "\<lparr>block = next_block h0, byte_off = 0\<rparr>"
  let ?h = "h0\<lparr>next_block := Suc (next_block h0), free_slots := free_slots h0 - 65536\<rparr>"
  let ?p = "\<lambda>w. \<lparr>m_chunks = [\<lparr>ptr = ?a, wmark = w, size_c = 65536\<rparr>], m_index = 0,
                 m_can_expand = False\<rparr>"
  have ctor: "MemoryPool h0 128 False = Inr (?h, ?p 0)"
    using assms
    by (simp add: MemoryPool_def MemoryPoolImpl_def expand_def new_uint64_array_def chunksize_def)
  have a1: "MemoryPool_allocate ?h (?p 0) 64 = Inr (Some ?a, ?h, ?p 8)"
    by (simp add: MemoryPool_allocate_def allocate_def ptr_add_def)
  have a2: "MemoryPool_allocate ?h (?p 8) 64
            = Inr (Some \<lparr>block = next_block h0, byte_off = 64\<rparr>, ?h, ?p 16)"
    by (simp add: MemoryPool_allocate_def allocate_def ptr_add_def)
  have a3: "MemoryPool_allocate ?h (?p 16) 8
            = Inr (Some \<lparr>block = next_block h0, byte_off = 128\<rparr>, ?h, ?p 17)"
    by (simp add: MemoryPool_allocate_def allocate_def ptr_add_def)
  show ?thesis
    by (intro exI [of _ ?h] exI [of _ "?p 0"] exI [of _ "?p 8"] exI [of _ "?p 16"]
        exI [of _ "?p 17"]) (simp add: ctor a1 a2 a3)
qed

theorem scenario_A_witness:
  "\<exists>h p0 p1 p2 p3.
     MemoryPool \<lparr>next_block = 0, free_slots = 65536\<rparr> 128 False = Inr (h, p0)
   \<and> map size_c (m_chunks p0) = [65536] \<and> map wmark (m_chunks p0) = [0]
   \<and> MemoryPool_allocate h p0 64 = Inr (Some \<lparr>block = 0, byte_off = 0\<rparr>, h, p1)
   \<and> map size_c (m_chunks p1) = [65536] \<and> map wmark (m_chunks p1) = [8]
   \<and> MemoryPool_allocate h p1 64 = Inr (Some \<lparr>block = 0, byte_off = 64\<rparr>, h, p2)
   \<and> map size_c (m_chunks p2) = [65536] \<and> map wmark (m_chunks p2) = [16]
   \<and> MemoryPool_allocate h p2 8 = Inr (Some \<lparr>block = 0, byte_off = 128\<rparr>, h, p3)
   \<and> map size_c (m_chunks p3) = [65536] \<and> map wmark (m_chunks p3) = [17]"
  using scenario_A [of "\<lparr>next_block = 0, free_slots = 65536\<rparr>"] by simp

subsection \<open>No spurious growth\<close>

text \<open>
  Claim C2 bounds the total byte size of the requests by the pool size. Every request
  is rounded up to whole slots of 8 bytes, so requests of a total size within the pool
  size can need more slots than the chunk has. With \<^verbatim>\<open>pool_size = 524288\<close> the chunk
  has 65536 slots; the requests of 524273, 1 and 1 bytes total 524275 bytes and need
  65535, 1 and 1 slots. Without growth the third result is null; with growth the pool
  has two chunks afterwards.
\<close>

theorem no_spurious_growth_counterexample:
  "(524273 + 1 + 1 :: nat) \<le> 524288
   \<and> MemoryPool \<lparr>next_block = 0, free_slots = 131072\<rparr> 524288 False
     = Inr (\<lparr>next_block = 1, free_slots = 65536\<rparr>,
            \<lparr>m_chunks = [\<lparr>ptr = \<lparr>block = 0, byte_off = 0\<rparr>, wmark = 0, size_c = 65536\<rparr>],
             m_index = 0, m_can_expand = False\<rparr>)
   \<and> allocate_seq \<lparr>next_block = 1, free_slots = 65536\<rparr>
        \<lparr>m_chunks = [\<lparr>ptr = \<lparr>block = 0, byte_off = 0\<rparr>, wmark = 0, size_c = 65536\<rparr>],
         m_index = 0, m_can_expand = False\<rparr> [524273, 1, 1]
     = Inr ([(Some \<lparr>block = 0, byte_off = 0\<rparr>, 524273),
             (Some \<lparr>block = 0, byte_off = 524280\<rparr>, 1),
             (None, 1)],
            \<lparr>next_block = 1, free_slots = 65536\<rparr>,
            \<lparr>m_chunks = [\<lparr>ptr = \<lparr>block = 0, byte_off = 0\<rparr>, wmark = 65536, size_c = 65536\<rparr>],
             m_index = 0, m_can_expand = False\<rparr>)
   \<and> MemoryPool \<lparr>next_block = 0, free_slots = 131072\<rparr> 524288 True
     = Inr (\<lparr>next_block = 1, free_slots = 65536\<rparr>,
            \<lparr>m_chunks = [\<lparr>ptr = \<lparr>block = 0, byte_off = 0\<rparr>, wmark = 0, size_c = 65536\<rparr>],
             m_index = 0, m_can_expand = True\<rparr>)
   \<and> allocate_seq \<lparr>next_block = 1, free_slots = 65536\<rparr>
        \<lparr>m_chunks = [\<lparr>ptr = \<lparr>block = 0, byte_off = 0\<rparr>, wmark = 0, size_c = 65536\<rparr>],
         m_index = 0, m_can_expand = True\<rparr> [524273, 1, 1]
     = Inr ([(Some \<lparr>block = 0, byte_off = 0\<rparr>, 524273),
             (Some \<lparr>block = 0, byte_off = 524280\<rparr>, 1),
             (Some \<lparr>block = 1, byte_off = 0\<rparr>, 1)],
            \<lparr>next_block = 2, free_slots = 0\<rparr>,
            \<lparr>m_chunks = [\<lparr>ptr = \<lparr>block = 0, byte_off = 0\<rparr>, wmark = 65536, size_c = 65536\<rparr>,
                         \<lparr>ptr = \<lparr>block = 1, byte_off = 0\<rparr>, wmark = 1, size_c = 65536\<rparr>],
             m_index = 1, m_can_expand = True\<rparr>)"
  by (simp add: MemoryPool_def MemoryPoolImpl_def expand_def new_uint64_array_def chunksize_def
      MemoryPool_allocate_def allocate_def ptr_add_def Let_def)

text \<open>
  Claim C2, amended. On a pool fresh from the constructor, for every sequence of
  requests of at most \<open>2 ^ 64 - 8\<close> bytes each whose sizes, rounded up to words of 8
  bytes, total no more than the capacity of the first chunk, which is the maximum of the
  slot count of \<^verbatim>\<open>pool_size\<close> and 65536 slots, every call returns: the chunk count stays
  at 1, the allocator is not called again, every result is non-null and 8-byte aligned,
  and its region is disjoint from the region of every earlier result.
\<close>

theorem no_spurious_growth:
  assumes ctor: "MemoryPool h0 pool_size ce = Inr (h, p)"
    and small: "\<forall>b \<in> set bs. unat b \<le> 2 ^ 64 - 8"
    and total: "(\<Sum>b\<leftarrow>bs. (unat b + 7) div 8) \<le> unat (max (slot_count pool_size) chunksize)"
  shows "\<exists>outs p'. allocate_seq h p bs = Inr (outs, h, p')
           \<and> length (m_chunks p') = 1
           \<and> map snd outs = bs
           \<and> (\<forall>j < length outs.
                 (\<exists>q. fst (outs ! j) = Some q \<and> byte_off q mod 8 = 0)
                 \<and> (\<forall>i < j. region_of (outs ! i) \<inter> region_of (outs ! j) = {}))"
proof -
  have wf: "pool_wf h p" using ctor by (rule MemoryPool_wf)
  from ctor have e: "expand h0 \<lparr>m_chunks = [], m_index = 0, m_can_expand = ce\<rparr> pool_size = Inr (h, p)"
    by (simp add: MemoryPool_def MemoryPoolImpl_def)
  with expand_cases [of h0 "\<lparr>m_chunks = [], m_index = 0, m_can_expand = ce\<rparr>" pool_size]
  have p: "p = \<lparr>m_chunks = [\<lparr>ptr = \<lparr>block = next_block h0, byte_off = 0\<rparr>, wmark = 0,
                               size_c = max (slot_count pool_size) chunksize\<rparr>],
                 m_index = 0, m_can_expand = ce\<rparr>"
    by auto
  have idx: "m_index p < length (m_chunks p)" by (simp add: p)
  have "map (\<lambda>b. unat (slot_count b)) bs = map (\<lambda>b. (unat b + 7) div 8) bs"
    using small by (intro map_cong refl slot_count_exact) simp
  then have "(\<Sum>b\<leftarrow>bs. unat (slot_count b)) = (\<Sum>b\<leftarrow>bs. (unat b + 7) div 8)"
    by (rule arg_cong [of _ _ sum_list])
  with total have "unat (wmark (m_chunks p ! m_index p)) + (\<Sum>b\<leftarrow>bs. unat (slot_count b))
        \<le> unat (size_c (m_chunks p ! m_index p))"
    by (simp add: p)
  from allocate_seq_fits [OF idx this, of h] obtain outs p'
    where run: "allocate_seq h p bs = Inr (outs, h, p')"
      and len: "length (m_chunks p') = length (m_chunks p)"
      and some: "\<forall>out \<in> set outs. fst out \<noteq> None"
    by blast
  from allocate_seq_invariant [OF wf run]
  have reqs: "map snd outs = bs" by simp
  note apart = allocate_seq_regions [OF wf run small]
  note aligned = allocate_seq_aligned [OF wf run]
  have "(\<exists>q. fst (outs ! j) = Some q \<and> byte_off q mod 8 = 0)
        \<and> (\<forall>i < j. region_of (outs ! i) \<inter> region_of (outs ! j) = {})"
    if j: "j < length outs" for j
  proof
    from j have mem: "outs ! j \<in> set outs" by (rule nth_mem)
    with some obtain q where q: "fst (outs ! j) = Some q" by auto
    with aligned mem have "byte_off q mod 8 = 0" by blast
    with q show "\<exists>q. fst (outs ! j) = Some q \<and> byte_off q mod 8 = 0" by simp
    show "\<forall>i < j. region_of (outs ! i) \<inter> region_of (outs ! j) = {}"
      using apart j by blast
  qed
  with run len reqs show ?thesis by (simp add: p)
qed

theorem no_spurious_growth_witness:
  "\<exists>outs p'. allocate_seq \<lparr>next_block = 1, free_slots = 0\<rparr>
       \<lparr>m_chunks = [\<lparr>ptr = \<lparr>block = 0, byte_off = 0\<rparr>, wmark = 0, size_c = 65536\<rparr>],
        m_index = 0, m_can_expand = False\<rparr> [64, 64, 8]
       = Inr (outs, \<lparr>next_block = 1, free_slots = 0\<rparr>, p')
     \<and> length (m_chunks p') = 1
     \<and> map snd outs = [64, 64, 8]
     \<and> (\<forall>j < length outs.
           (\<exists>q. fst (outs ! j) = Some q \<and> byte_off q mod 8 = 0)
           \<and> (\<forall>i < j. region_of (outs ! i) \<inter> region_of (outs ! j) = {}))"
proof -
  have ctor: "MemoryPool \<lparr>next_block = 0, free_slots = 65536\<rparr> 128 False
              = Inr (\<lparr>next_block = 1, free_slots = 0\<rparr>,
                     \<lparr>m_chunks = [\<lparr>ptr = \<lparr>block = 0, byte_off = 0\<rparr>, wmark = 0, size_c = 65536\<rparr>],
                      m_index = 0, m_can_expand = False\<rparr>)"
    by (simp add: MemoryPool_def MemoryPoolImpl_def expand_def new_uint64_array_def chunksize_def)
  have small: "\<forall>b \<in> set [64, 64, 8 :: size_t]. unat b \<le> 2 ^ 64 - 8" by simp
  have total: "(\<Sum>b\<leftarrow>[64, 64, 8 :: size_t]. (unat b + 7) div 8)
               \<le> unat (max (slot_count 128) chunksize)"
    by (simp add: slot_count_def chunksize_def)
  from no_spurious_growth [OF ctor small total] show ?thesis .
qed

subsection \<open>Growth sizing\<close>

text \<open>
  Claim C3 gives the new chunk the capacity \<open>max(n, default_chunk_slots)\<close> with
  \<open>n = ceil(bytes / slot_size)\<close> and a default chunk of 64 KiB, for every byte count.
  \<^verbatim>\<open>expand\<close> compares the slot count with \<^verbatim>\<open>chunksize = 64 * 1024\<close>, a number of slots:
  a request of 8 bytes gets a chunk of 65536 slots, which is 512 KiB, where the claim
  gives 8192 slots. And for a request of \<open>2 ^ 64 - 1\<close> bytes the slot count wraps to 0 and
  the chunk has 65536 slots, where the claim gives \<open>2 ^ 61\<close>.
\<close>

theorem growth_sizing_counterexample:
  "expand \<lparr>next_block = 0, free_slots = 65536\<rparr>
       \<lparr>m_chunks = [], m_index = 0, m_can_expand = True\<rparr> 8
     = Inr (\<lparr>next_block = 1, free_slots = 0\<rparr>,
            \<lparr>m_chunks = [\<lparr>ptr = \<lparr>block = 0, byte_off = 0\<rparr>, wmark = 0, size_c = 65536\<rparr>],
             m_index = 0, m_can_expand = True\<rparr>)
   \<and> spec_chunk_capacity 8 = 8192
   \<and> expand \<lparr>next_block = 0, free_slots = 65536\<rparr>
       \<lparr>m_chunks = [], m_index = 0, m_can_expand = True\<rparr> 18446744073709551615
     = Inr (\<lparr>next_block = 1, free_slots = 0\<rparr>,
            \<lparr>m_chunks = [\<lparr>ptr = \<lparr>block = 0, byte_off = 0\<rparr>, wmark = 0, size_c = 65536\<rparr>],
             m_index = 0, m_can_expand = True\<rparr>)
   \<and> spec_chunk_capacity 18446744073709551615 = 2305843009213693952"
  by (simp add: expand_def new_uint64_array_def chunksize_def spec_chunk_capacity_def
      spec_slot_count_def spec_default_chunk_slots_def)

text \<open>
  Claim C3, amended. For every byte count up to \<open>2 ^ 64 - 8\<close>, \<^verbatim>\<open>expand\<close> computes the
  slot count \<open>n = ceil(bytes / 8)\<close> and, when the system supplies the memory, appends
  exactly one chunk in a fresh block, with mark 0 and capacity \<open>max(n, 65536)\<close> slots
  (the default chunk is 65536 slots, 512 KiB), and makes it the current chunk. The
  chunks before it are kept as they are. The capacity is at least \<open>n\<close>, so the request
  fits in this one chunk however large it is.
\<close>

theorem growth_sizing:
  assumes "unat bytes \<le> 2 ^ 64 - 8"
    and "max (spec_slot_count (unat bytes)) 65536 \<le> free_slots h"
  shows "unat (slot_count bytes) = spec_slot_count (unat bytes)
       \<and> expand h p bytes
           = Inr (h\<lparr>next_block := Suc (next_block h),
                    free_slots := free_slots h - unat (max (slot_count bytes) chunksize)\<rparr>,
                  p\<lparr>m_chunks := m_chunks p @ [\<lparr>ptr = \<lparr>block = next_block h, byte_off = 0\<rparr>,
                                               wmark = 0,
                                               size_c = max (slot_count bytes) chunksize\<rparr>],
                    m_index := length (m_chunks p)\<rparr>)
       \<and> unat (max (slot_count bytes) chunksize) = max (spec_slot_count (unat bytes)) 65536
       \<and> slot_count bytes \<le> max (slot_count bytes) chunksize"
proof -
  have n: "unat (slot_count bytes) = spec_slot_count (unat bytes)"
    using assms(1) by (simp add: slot_count_exact spec_slot_count_def)
  let ?len = "max (slot_count bytes) chunksize"
  have len: "unat ?len = max (spec_slot_count (unat bytes)) 65536"
    by (simp add: unat_max_word unat_chunksize n)
  with assms(2) have "unat ?len \<le> free_slots h" by simp
  from expand_ok [OF this, of p] len n show ?thesis by simp
qed

theorem growth_sizing_witness:
  "unat (slot_count 3145728) = spec_slot_count 3145728
   \<and> expand \<lparr>next_block = 1, free_slots = 393216\<rparr>
          \<lparr>m_chunks = [\<lparr>ptr = \<lparr>block = 0, byte_off = 0\<rparr>, wmark = 17, size_c = 65536\<rparr>],
           m_index = 0, m_can_expand = True\<rparr> 3145728
        = Inr (\<lparr>next_block = 2, free_slots = 0\<rparr>,
               \<lparr>m_chunks = [\<lparr>ptr = \<lparr>block = 0, byte_off = 0\<rparr>, wmark = 17, size_c = 65536\<rparr>,
                            \<lparr>ptr = \<lparr>block = 1, byte_off = 0\<rparr>, wmark = 0, size_c = 393216\<rparr>],
                m_index = 1, m_can_expand = True\<rparr>)
   \<and> unat (max (slot_count 3145728) chunksize) = max (spec_slot_count 3145728) 65536
   \<and> slot_count 3145728 \<le> max (slot_count 3145728) chunksize"
proof -
  have m: "max (slot_count 3145728) chunksize = 393216"
    by (simp add: slot_count_def chunksize_def)
  show ?thesis
    using growth_sizing [of 3145728 "\<lparr>next_block = 1, free_slots = 393216\<rparr>"
      "\<lparr>m_chunks = [\<lparr>ptr = \<lparr>block = 0, byte_off = 0\<rparr>, wmark = 17, size_c = 65536\<rparr>],
        m_index = 0, m_can_expand = True\<rparr>"]
    by (simp add: spec_slot_count_def m)
qed

subsection \<open>Exhaustion without growth\<close>

text \<open>
  Claim C4 says that once a request has found too little room and growth is off, every
  later request returns null as well. The state is unchanged by the refused call, so a
  later request that is small enough is served: in a chunk of 65536 slots with one slot
  left, a request of 16 bytes returns null and the request of 8 bytes after it returns
  the last slot. Even in a chunk with no slot left, where a request of 8 bytes returns
  null, the request of 0 bytes after it returns the address at the end of the chunk.
\<close>

theorem exhaustion_counterexample:
  "allocate_seq \<lparr>next_block = 1, free_slots = 0\<rparr>
       \<lparr>m_chunks = [\<lparr>ptr = \<lparr>block = 0, byte_off = 0\<rparr>, wmark = 0, size_c = 65536\<rparr>],
        m_index = 0, m_can_expand = False\<rparr> [524280, 16, 8]
     = Inr ([(Some \<lparr>block = 0, byte_off = 0\<rparr>, 524280),
             (None, 16),
             (Some \<lparr>block = 0, byte_off = 524280\<rparr>, 8)],
            \<lparr>next_block = 1, free_slots = 0\<rparr>,
            \<lparr>m_chunks = [\<lparr>ptr = \<lparr>block = 0, byte_off = 0\<rparr>, wmark = 65536, size_c = 65536\<rparr>],
             m_index = 0, m_can_expand = False\<rparr>)
   \<and> allocate_seq \<lparr>next_block = 1, free_slots = 0\<rparr>
       \<lparr>m_chunks = [\<lparr>ptr = \<lparr>block = 0, byte_off = 0\<rparr>, wmark = 0, size_c = 65536\<rparr>],
        m_index = 0, m_can_expand = False\<rparr> [524288, 8, 0]
     = Inr ([(Some \<lparr>block = 0, byte_off = 0\<rparr>, 524288),
             (None, 8),
             (Some \<lparr>block = 0, byte_off = 524288\<rparr>, 0)],
            \<lparr>next_block = 1, free_slots = 0\<rparr>,
            \<lparr>m_chunks = [\<lparr>ptr = \<lparr>block = 0, byte_off = 0\<rparr>, wmark = 65536, size_c = 65536\<rparr>],
             m_index = 0, m_can_expand = False\<rparr>)"
  by (simp add: MemoryPool_allocate_def allocate_def ptr_add_def Let_def)

text \<open>
  Claim C4, amended. Whenever growth is disallowed and the remaining capacity of the
  current chunk is less than the slot count of the request, \<^verbatim>\<open>allocate\<close> returns null
  and raises nothing, and the allocator and the pool are exactly as before: no chunk is
  added, no mark moves and the buffers behind earlier results stay. Every later request
  whose slot count also exceeds the remaining capacity returns null in the same way; a
  later request that fits is not covered.
\<close>

theorem exhaustion_without_growth:
  assumes "pool_inv p" and "\<not> m_can_expand p"
    and "unat (size_c (m_chunks p ! m_index p)) - unat (wmark (m_chunks p ! m_index p))
         < unat (slot_count bytes)"
    and "\<forall>b \<in> set bs. unat (size_c (m_chunks p ! m_index p)) - unat (wmark (m_chunks p ! m_index p))
                        < unat (slot_count b)"
  shows "allocate h p bytes False = Inr (None, h, p)
       \<and> MemoryPool_allocate h p bytes = Inr (None, h, p)
       \<and> allocate_seq h p (bytes # bs) = Inr (map (\<lambda>b. (None, b)) (bytes # bs), h, p)"
proof -
  have one: "allocate h p bytes False = Inr (None, h, p)"
    using pool_inv_current [OF assms(1)] assms(3) by (rule allocate_exhausted)
  have "\<forall>b \<in> set (bytes # bs).
          unat (size_c (m_chunks p ! m_index p)) - unat (wmark (m_chunks p ! m_index p))
          < unat (slot_count b)"
    using assms(3,4) by simp
  with assms(1,2) have "allocate_seq h p (bytes # bs) = Inr (map (\<lambda>b. (None, b)) (bytes # bs), h, p)"
    by (rule allocate_seq_exhausted)
  with one assms(2) show ?thesis by (simp add: MemoryPool_allocate_def)
qed

theorem exhaustion_without_growth_witness:
  "allocate \<lparr>next_block = 1, free_slots = 1000\<rparr>
       \<lparr>m_chunks = [\<lparr>ptr = \<lparr>block = 0, byte_off = 0\<rparr>, wmark = 65535, size_c = 65536\<rparr>],
        m_index = 0, m_can_expand = False\<rparr> 16 False
     = Inr (None, \<lparr>next_block = 1, free_slots = 1000\<rparr>,
            \<lparr>m_chunks = [\<lparr>ptr = \<lparr>block = 0, byte_off = 0\<rparr>, wmark = 65535, size_c = 65536\<rparr>],
             m_index = 0, m_can_expand = False\<rparr>)
   \<and> allocate_seq \<lparr>next_block = 1, free_slots = 1000\<rparr>
       \<lparr>m_chunks = [\<lparr>ptr = \<lparr>block = 0, byte_off = 0\<rparr>, wmark = 65535, size_c = 65536\<rparr>],
        m_index = 0, m_can_expand = False\<rparr> [16, 4096, 9]
     = Inr ([(None, 16), (None, 4096), (None, 9)], \<lparr>next_block = 1, free_slots = 1000\<rparr>,
            \<lparr>m_chunks = [\<lparr>ptr = \<lparr>block = 0, byte_off = 0\<rparr>, wmark = 65535, size_c = 65536\<rparr>],
             m_index = 0, m_can_expand = False\<rparr>)"
  using exhaustion_without_growth [of
      "\<lparr>m_chunks = [\<lparr>ptr = \<lparr>block = 0, byte_off = 0\<rparr>, wmark = 65535, size_c = 65536\<rparr>],
        m_index = 0, m_can_expand = False\<rparr>" 16 "[4096, 9]" "\<lparr>next_block = 1, free_slots = 1000\<rparr>"]
  by (simp add: pool_inv_def chunk_inv_def slot_count_def del: allocate_seq.simps)

subsection \<open>Single-call growth\<close>

text \<open>
  Claim C6 says that on a pool with the default \<^verbatim>\<open>pool_size\<close> and growth permitted the
  call \<^verbatim>\<open>allocate(70*1024)\<close> grows the pool to 2 chunks. The default \<^verbatim>\<open>pool_size\<close> is
  2097152 bytes, so the first chunk has 262144 slots and the 8960 slots of the request
  are taken from it: the pool still has one chunk. The same happens with a
  \<^verbatim>\<open>pool_size\<close> of 64 KiB, where the first chunk has 65536 slots.
\<close>

theorem single_call_growth_counterexample:
  "MemoryPool \<lparr>next_block = 0, free_slots = 262144\<rparr> default_pool_size default_can_expand
     = Inr (\<lparr>next_block = 1, free_slots = 0\<rparr>,
            \<lparr>m_chunks = [\<lparr>ptr = \<lparr>block = 0, byte_off = 0\<rparr>, wmark = 0, size_c = 262144\<rparr>],
             m_index = 0, m_can_expand = True\<rparr>)
   \<and> MemoryPool_allocate \<lparr>next_block = 1, free_slots = 0\<rparr>
        \<lparr>m_chunks = [\<lparr>ptr = \<lparr>block = 0, byte_off = 0\<rparr>, wmark = 0, size_c = 262144\<rparr>],
         m_index = 0, m_can_expand = True\<rparr> (70 * 1024)
     = Inr (Some \<lparr>block = 0, byte_off = 0\<rparr>, \<lparr>next_block = 1, free_slots = 0\<rparr>,
            \<lparr>m_chunks = [\<lparr>ptr = \<lparr>block = 0, byte_off = 0\<rparr>, wmark = 8960, size_c = 262144\<rparr>],
             m_index = 0, m_can_expand = True\<rparr>)
   \<and> MemoryPool \<lparr>next_block = 0, free_slots = 262144\<rparr> (64 * 1024) True
     = Inr (\<lparr>next_block = 1, free_slots = 196608\<rparr>,
            \<lparr>m_chunks = [\<lparr>ptr = \<lparr>block = 0, byte_off = 0\<rparr>, wmark = 0, size_c = 65536\<rparr>],
             m_index = 0, m_can_expand = True\<rparr>)
   \<and> MemoryPool_allocate \<lparr>next_block = 1, free_slots = 196608\<rparr>
        \<lparr>m_chunks = [\<lparr>ptr = \<lparr>block = 0, byte_off = 0\<rparr>, wmark = 0, size_c = 65536\<rparr>],
         m_index = 0, m_can_expand = True\<rparr> (70 * 1024)
     = Inr (Some \<lparr>block = 0, byte_off = 0\<rparr>, \<lparr>next_block = 1, free_slots = 196608\<rparr>,
            \<lparr>m_chunks = [\<lparr>ptr = \<lparr>block = 0, byte_off = 0\<rparr>, wmark = 8960, size_c = 65536\<rparr>],
             m_index = 0, m_can_expand = True\<rparr>)"
  by (simp add: MemoryPool_def MemoryPoolImpl_def expand_def new_uint64_array_def chunksize_def
      default_pool_size_def default_can_expand_def MemoryPool_allocate_def allocate_def
      ptr_add_def Let_def)

text \<open>
  Claim C6, amended. With growth permitted, on a pool fresh from the constructor one
  request whose slot count exceeds the capacity of the first chunk (the maximum of the
  slot count of \<^verbatim>\<open>pool_size\<close> and 65536) succeeds when the system supplies the memory:
  it returns the start of a fresh block, the new chunk has exactly the word-rounded size
  of the request and is filled by it, the first chunk is untouched, and the chunk count
  becomes 2. On a pool with the default \<^verbatim>\<open>pool_size\<close> and \<^verbatim>\<open>can_expand = true\<close>, the call
  \<^verbatim>\<open>allocate(70*1024)\<close> does not grow the pool: it returns the start of the first
  chunk, of which it takes 8960 of 262144 slots, and the pool holds 1 chunk.
\<close>

theorem single_call_growth:
  assumes ctor: "MemoryPool h0 pool_size True = Inr (h, p)"
    and larger: "unat (max (slot_count pool_size) chunksize) < unat (slot_count bytes)"
    and room: "unat (slot_count bytes) \<le> free_slots h"
    and room0: "262144 \<le> free_slots g0"
  shows "MemoryPool_allocate h p bytes
           = Inr (Some \<lparr>block = next_block h, byte_off = 0\<rparr>,
                  h\<lparr>next_block := Suc (next_block h),
                    free_slots := free_slots h - unat (slot_count bytes)\<rparr>,
                  p\<lparr>m_chunks := m_chunks p @ [\<lparr>ptr = \<lparr>block = next_block h, byte_off = 0\<rparr>,
                                               wmark = slot_count bytes,
                                               size_c = slot_count bytes\<rparr>],
                    m_index := 1\<rparr>)
       \<and> length (m_chunks p) = 1
       \<and> block (ptr (m_chunks p ! 0)) \<noteq> next_block h
       \<and> (\<exists>g q. MemoryPool g0 default_pool_size default_can_expand = Inr (g, q)
              \<and> MemoryPool_allocate g q (70 * 1024)
                  = Inr (Some \<lparr>block = next_block g0, byte_off = 0\<rparr>, g,
                         q\<lparr>m_chunks := [\<lparr>ptr = \<lparr>block = next_block g0, byte_off = 0\<rparr>,
                                          wmark = 8960, size_c = 262144\<rparr>]\<rparr>))"
proof -
  let ?e = "\<lparr>m_chunks = [], m_index = 0, m_can_expand = True\<rparr>"
  from ctor have e: "expand h0 ?e pool_size = Inr (h, p)"
    by (simp add: MemoryPool_def MemoryPoolImpl_def)
  with expand_cases [of h0 ?e pool_size]
  have p: "p = \<lparr>m_chunks = [\<lparr>ptr = \<lparr>block = next_block h0, byte_off = 0\<rparr>, wmark = 0,
                               size_c = max (slot_count pool_size) chunksize\<rparr>],
                 m_index = 0, m_can_expand = True\<rparr>"
    and h: "next_block h = Suc (next_block h0)"
    by auto
  have inv: "pool_inv p"
    using pool_wf_inv [OF MemoryPool_wf [OF ctor]] .
  have "unat chunksize < unat (slot_count bytes)"
    using larger by (simp add: unat_max_word)
  then have big: "max (slot_count bytes) chunksize = slot_count bytes"
    by (simp add: max_def word_le_nat_alt)
  have less: "unat (size_c (m_chunks p ! m_index p)) - unat (wmark (m_chunks p ! m_index p))
              < unat (slot_count bytes)"
    using larger by (simp add: p)
  have "unat (max (slot_count bytes) chunksize) \<le> free_slots h"
    using room by (simp add: big)
  from allocate_grows [OF pool_inv_current [OF inv] less this]
  have grow: "MemoryPool_allocate h p bytes
           = Inr (Some \<lparr>block = next_block h, byte_off = 0\<rparr>,
                  h\<lparr>next_block := Suc (next_block h),
                    free_slots := free_slots h - unat (slot_count bytes)\<rparr>,
                  p\<lparr>m_chunks := m_chunks p @ [\<lparr>ptr = \<lparr>block = next_block h, byte_off = 0\<rparr>,
                                               wmark = slot_count bytes,
                                               size_c = slot_count bytes\<rparr>],
                    m_index := 1\<rparr>)"
    by (simp add: MemoryPool_allocate_def big p)
  let ?g = "g0\<lparr>next_block := Suc (next_block g0), free_slots := free_slots g0 - 262144\<rparr>"
  let ?q = "\<lparr>m_chunks = [\<lparr>ptr = \<lparr>block = next_block g0, byte_off = 0\<rparr>, wmark = 0, size_c = 262144\<rparr>],
             m_index = 0, m_can_expand = True\<rparr>"
  have c0: "MemoryPool g0 default_pool_size default_can_expand = Inr (?g, ?q)"
    using room0
    by (simp add: MemoryPool_def MemoryPoolImpl_def expand_def new_uint64_array_def chunksize_def
        default_pool_size_def default_can_expand_def)
  have a0: "MemoryPool_allocate ?g ?q (70 * 1024)
            = Inr (Some \<lparr>block = next_block g0, byte_off = 0\<rparr>, ?g,
                   ?q\<lparr>m_chunks := [\<lparr>ptr = \<lparr>block = next_block g0, byte_off = 0\<rparr>,
                                    wmark = 8960, size_c = 262144\<rparr>]\<rparr>)"
    by (simp add: MemoryPool_allocate_def allocate_def ptr_add_def)
  have "\<exists>g q. MemoryPool g0 default_pool_size default_can_expand = Inr (g, q)
              \<and> MemoryPool_allocate g q (70 * 1024)
                  = Inr (Some \<lparr>block = next_block g0, byte_off = 0\<rparr>, g,
                         q\<lparr>m_chunks := [\<lparr>ptr = \<lparr>block = next_block g0, byte_off = 0\<rparr>,
                                          wmark = 8960, size_c = 262144\<rparr>]\<rparr>)"
    using c0 a0 by blast
  with grow show ?thesis by (simp add: p h)
qed

theorem single_call_growth_witness:
  "MemoryPool_allocate \<lparr>next_block = 1, free_slots = 393216\<rparr>
       \<lparr>m_chunks = [\<lparr>ptr = \<lparr>block = 0, byte_off = 0\<rparr>, wmark = 0, size_c = 262144\<rparr>],
        m_index = 0, m_can_expand = True\<rparr> 3145728
     = Inr (Some \<lparr>block = 1, byte_off = 0\<rparr>, \<lparr>next_block = 2, free_slots = 0\<rparr>,
            \<lparr>m_chunks = [\<lparr>ptr = \<lparr>block = 0, byte_off = 0\<rparr>, wmark = 0, size_c = 262144\<rparr>,
                         \<lparr>ptr = \<lparr>block = 1, byte_off = 0\<rparr>, wmark = 393216, size_c = 393216\<rparr>],
             m_index = 1, m_can_expand = True\<rparr>)
   \<and> (\<exists>g q. MemoryPool \<lparr>next_block = 0, free_slots = 262144\<rparr> default_pool_size default_can_expand
              = Inr (g, q)
          \<and> MemoryPool_allocate g q (70 * 1024)
              = Inr (Some \<lparr>block = 0, byte_off = 0\<rparr>, g,
                     q\<lparr>m_chunks := [\<lparr>ptr = \<lparr>block = 0, byte_off = 0\<rparr>,
                                      wmark = 8960, size_c = 262144\<rparr>]\<rparr>))"
proof -
  have ctor: "MemoryPool \<lparr>next_block = 0, free_slots = 655360\<rparr> 2097152 True
              = Inr (\<lparr>next_block = 1, free_slots = 393216\<rparr>,
                     \<lparr>m_chunks = [\<lparr>ptr = \<lparr>block = 0, byte_off = 0\<rparr>, wmark = 0, size_c = 262144\<rparr>],
                      m_index = 0, m_can_expand = True\<rparr>)"
    by (simp add: MemoryPool_def MemoryPoolImpl_def expand_def new_uint64_array_def chunksize_def)
  have n: "slot_count 3145728 = 393216" by (simp add: slot_count_def)
  have larger: "unat (max (slot_count 2097152) chunksize) < unat (slot_count 3145728)"
    by (simp add: slot_count_def chunksize_def)
  have room: "unat (slot_count 3145728) \<le> free_slots \<lparr>next_block = 1, free_slots = 393216\<rparr>"
    by (simp add: n)
  have room0: "262144 \<le> free_slots \<lparr>next_block = 0, free_slots = 262144\<rparr>" by simp
  from single_call_growth [OF ctor larger room room0] show ?thesis by (simp add: n)
qed

subsection \<open>The chunk invariant\<close>

text \<open>
  Claim C7. In every chunk of the pool the high-water mark is between 0 and the
  capacity. This holds after the constructor and is kept by every call of \<^verbatim>\<open>allocate\<close>
  and of \<^verbatim>\<open>expand\<close> that returns, and across such a call no chunk is removed or resized
  and no mark decreases. The invariant that is carried along also bounds the capacity
  by \<open>2 ^ 61\<close>, as \<^verbatim>\<open>expand\<close> establishes; it is what keeps \<^verbatim>\<open>wmark + n\<close> from wrapping.
\<close>

theorem chunk_invariant:
  "(MemoryPoolImpl h0 pool_size ce0 = Inr (h, p) \<longrightarrow> pool_inv p)
   \<and> (pool_inv q \<longrightarrow> (\<forall>c \<in> set (m_chunks q). 0 \<le> unat (wmark c) \<and> unat (wmark c) \<le> unat (size_c c)))
   \<and> (pool_inv q \<and> allocate g q bytes ce = Inr (r, g1, q1) \<longrightarrow> pool_inv q1 \<and> marks_mono q q1)
   \<and> (pool_inv q \<and> expand g q bytes = Inr (g2, q2) \<longrightarrow> pool_inv q2 \<and> marks_mono q q2)"
proof (intro conjI impI)
  assume "MemoryPoolImpl h0 pool_size ce0 = Inr (h, p)"
  then have "expand h0 \<lparr>m_chunks = [], m_index = 0, m_can_expand = ce0\<rparr> pool_size = Inr (h, p)"
    by (simp add: MemoryPoolImpl_def)
  then show "pool_inv p" by (intro pool_inv_expand [of _ h0 pool_size h]) simp_all
next
  assume "pool_inv q"
  then show "\<forall>c \<in> set (m_chunks q). 0 \<le> unat (wmark c) \<and> unat (wmark c) \<le> unat (size_c c)"
    by (simp add: pool_inv_def chunk_inv_def word_le_nat_alt)
next
  assume a: "pool_inv q \<and> allocate g q bytes ce = Inr (r, g1, q1)"
  then show "pool_inv q1" using pool_inv_allocate by blast
  from a show "marks_mono q q1" using marks_mono_allocate by blast
next
  assume e: "pool_inv q \<and> expand g q bytes = Inr (g2, q2)"
  then show "pool_inv q2" using pool_inv_expand [of q g bytes g2 q2] by (simp add: pool_inv_def)
  from e show "marks_mono q q2" using marks_mono_expand by blast
qed

theorem chunk_invariant_witness:
  "pool_inv \<lparr>m_chunks = [\<lparr>ptr = \<lparr>block = 0, byte_off = 0\<rparr>, wmark = 0, size_c = 65536\<rparr>],
             m_index = 0, m_can_expand = True\<rparr>
   \<and> pool_inv \<lparr>m_chunks = [\<lparr>ptr = \<lparr>block = 0, byte_off = 0\<rparr>, wmark = 8, size_c = 65536\<rparr>],
               m_index = 0, m_can_expand = True\<rparr>
   \<and> marks_mono \<lparr>m_chunks = [\<lparr>ptr = \<lparr>block = 0, byte_off = 0\<rparr>, wmark = 0, size_c = 65536\<rparr>],
                  m_index = 0, m_can_expand = True\<rparr>
                 \<lparr>m_chunks = [\<lparr>ptr = \<lparr>block = 0, byte_off = 0\<rparr>, wmark = 8, size_c = 65536\<rparr>],
                  m_index = 0, m_can_expand = True\<rparr>
   \<and> pool_inv \<lparr>m_chunks = [\<lparr>ptr = \<lparr>block = 0, byte_off = 0\<rparr>, wmark = 0, size_c = 65536\<rparr>,
                           \<lparr>ptr = \<lparr>block = 1, byte_off = 0\<rparr>, wmark = 0, size_c = 65536\<rparr>],
               m_index = 1, m_can_expand = True\<rparr>
   \<and> marks_mono \<lparr>m_chunks = [\<lparr>ptr = \<lparr>block = 0, byte_off = 0\<rparr>, wmark = 0, size_c = 65536\<rparr>],
                  m_index = 0, m_can_expand = True\<rparr>
                 \<lparr>m_chunks = [\<lparr>ptr = \<lparr>block = 0, byte_off = 0\<rparr>, wmark = 0, size_c = 65536\<rparr>,
                              \<lparr>ptr = \<lparr>block = 1, byte_off = 0\<rparr>, wmark = 0, size_c = 65536\<rparr>],
                  m_index = 1, m_can_expand = True\<rparr>"
proof -
  let ?h = "\<lparr>next_block = 1, free_slots = 65536\<rparr>"
  let ?p = "\<lparr>m_chunks = [\<lparr>ptr = \<lparr>block = 0, byte_off = 0\<rparr>, wmark = 0, size_c = 65536\<rparr>],
             m_index = 0, m_can_expand = True\<rparr>"
  have ctor: "MemoryPoolImpl \<lparr>next_block = 0, free_slots = 131072\<rparr> 128 True = Inr (?h, ?p)"
    by (simp add: MemoryPoolImpl_def expand_def new_uint64_array_def chunksize_def)
  have alloc: "allocate ?h ?p 64 True
               = Inr (Some \<lparr>block = 0, byte_off = 0\<rparr>, ?h,
                      \<lparr>m_chunks = [\<lparr>ptr = \<lparr>block = 0, byte_off = 0\<rparr>, wmark = 8, size_c = 65536\<rparr>],
                       m_index = 0, m_can_expand = True\<rparr>)"
    by (simp add: allocate_def ptr_add_def)
  have grow: "expand ?h ?p 64
              = Inr (\<lparr>next_block = 2, free_slots = 0\<rparr>,
                     \<lparr>m_chunks = [\<lparr>ptr = \<lparr>block = 0, byte_off = 0\<rparr>, wmark = 0, size_c = 65536\<rparr>,
                                  \<lparr>ptr = \<lparr>block = 1, byte_off = 0\<rparr>, wmark = 0, size_c = 65536\<rparr>],
                      m_index = 1, m_can_expand = True\<rparr>)"
    by (simp add: expand_def new_uint64_array_def chunksize_def)
  from chunk_invariant [of "\<lparr>next_block = 0, free_slots = 131072\<rparr>" 128 True ?h ?p ?p ?h 64 True
      "Some \<lparr>block = 0, byte_off = 0\<rparr>" ?h
      "\<lparr>m_chunks = [\<lparr>ptr = \<lparr>block = 0, byte_off = 0\<rparr>, wmark = 8, size_c = 65536\<rparr>],
        m_index = 0, m_can_expand = True\<rparr>"
      "\<lparr>next_block = 2, free_slots = 0\<rparr>"
      "\<lparr>m_chunks = [\<lparr>ptr = \<lparr>block = 0, byte_off = 0\<rparr>, wmark = 0, size_c = 65536\<rparr>,
                   \<lparr>ptr = \<lparr>block = 1, byte_off = 0\<rparr>, wmark = 0, size_c = 65536\<rparr>],
        m_index = 1, m_can_expand = True\<rparr>"]
  show ?thesis
    unfolding ctor alloc grow by blast
qed

subsection \<open>Disjointness of the returned regions\<close>

text \<open>
  Claim C8 says that no two successful calls return overlapping regions. A request of
  more than \<open>2 ^ 64 - 8\<close> bytes has the slot count 0, since \<^verbatim>\<open>bytes + 8 - 1\<close> wraps:
  it is served at the high-water mark, and the mark stays. On a fresh pool the request
  of \<open>2 ^ 64 - 1\<close> bytes and the request of 8 bytes after it both return the start of
  the chunk, so the first byte of the chunk is in both regions.
\<close>

theorem regions_disjoint_counterexample:
  "MemoryPool \<lparr>next_block = 0, free_slots = 65536\<rparr> 128 True
     = Inr (\<lparr>next_block = 1, free_slots = 0\<rparr>,
            \<lparr>m_chunks = [\<lparr>ptr = \<lparr>block = 0, byte_off = 0\<rparr>, wmark = 0, size_c = 65536\<rparr>],
             m_index = 0, m_can_expand = True\<rparr>)
   \<and> allocate_seq \<lparr>next_block = 1, free_slots = 0\<rparr>
        \<lparr>m_chunks = [\<lparr>ptr = \<lparr>block = 0, byte_off = 0\<rparr>, wmark = 0, size_c = 65536\<rparr>],
         m_index = 0, m_can_expand = True\<rparr> [18446744073709551615, 8]
     = Inr ([(Some \<lparr>block = 0, byte_off = 0\<rparr>, 18446744073709551615),
             (Some \<lparr>block = 0, byte_off = 0\<rparr>, 8)],
            \<lparr>next_block = 1, free_slots = 0\<rparr>,
            \<lparr>m_chunks = [\<lparr>ptr = \<lparr>block = 0, byte_off = 0\<rparr>, wmark = 1, size_c = 65536\<rparr>],
             m_index = 0, m_can_expand = True\<rparr>)
   \<and> (0, 0) \<in> region_of (Some \<lparr>block = 0, byte_off = 0\<rparr>, 18446744073709551615)
                \<inter> region_of (Some \<lparr>block = 0, byte_off = 0\<rparr>, 8)"
  by (simp add: MemoryPool_def MemoryPoolImpl_def expand_def new_uint64_array_def chunksize_def
      MemoryPool_allocate_def allocate_def ptr_add_def Let_def region_of_def)

text \<open>
  Claim C8, amended. Take a pool from either constructor and any sequence of calls of
  the public \<^verbatim>\<open>allocate\<close>, each for at most \<open>2 ^ 64 - 8\<close> bytes, that all return,
  whether or not the pool grows on the way. The regions of any two of the calls, each as
  long as the word-rounded size of its request, share no byte, and both lie inside the
  buffers of the chunks the pool holds at the end. A null result and a request of 0
  bytes have an empty region.
\<close>

theorem regions_disjoint:
  assumes "MemoryPool h0 pool_size ce = Inr (h, p)
           \<or> MemoryPool_bytes h0 pool_size ce bytes0 = Inr (h, p)"
    and "allocate_seq h p bs = Inr (outs, h', p')"
    and "\<forall>b \<in> set bs. unat b \<le> 2 ^ 64 - 8"
    and "i < j" and "j < length outs"
  shows "region_of (outs ! i) \<inter> region_of (outs ! j) = {}
       \<and> region_of (outs ! i) \<subseteq> buffers p'
       \<and> region_of (outs ! j) \<subseteq> buffers p'"
proof -
  have wf: "pool_wf h p"
    using assms(1) MemoryPool_wf MemoryPool_bytes_wf by blast
  note regions = allocate_seq_regions [OF wf assms(2,3)]
  from assms(4,5) have "i < length outs" by simp
  with regions assms(4,5) show ?thesis by blast
qed

theorem regions_disjoint_witness:
  "region_of (Some \<lparr>block = 1, byte_off = 0\<rparr>, 16) \<inter> region_of (Some \<lparr>block = 1, byte_off = 16\<rparr>, 8) = {}
   \<and> region_of (Some \<lparr>block = 1, byte_off = 0\<rparr>, 16)
       \<subseteq> buffers \<lparr>m_chunks = [\<lparr>ptr = \<lparr>block = 0, byte_off = 0\<rparr>, wmark = 65535, size_c = 65536\<rparr>,
                              \<lparr>ptr = \<lparr>block = 1, byte_off = 0\<rparr>, wmark = 3, size_c = 65536\<rparr>],
                  m_index = 1, m_can_expand = True\<rparr>
   \<and> region_of (Some \<lparr>block = 1, byte_off = 16\<rparr>, 8)
       \<subseteq> buffers \<lparr>m_chunks = [\<lparr>ptr = \<lparr>block = 0, byte_off = 0\<rparr>, wmark = 65535, size_c = 65536\<rparr>,
                              \<lparr>ptr = \<lparr>block = 1, byte_off = 0\<rparr>, wmark = 3, size_c = 65536\<rparr>],
                  m_index = 1, m_can_expand = True\<rparr>"
proof -
  let ?h = "\<lparr>next_block = 1, free_slots = 65536\<rparr>"
  let ?p = "\<lparr>m_chunks = [\<lparr>ptr = \<lparr>block = 0, byte_off = 0\<rparr>, wmark = 0, size_c = 65536\<rparr>],
             m_index = 0, m_can_expand = True\<rparr>"
  let ?outs = "[(Some \<lparr>block = 0, byte_off = 0\<rparr>, 524280), (Some \<lparr>block = 1, byte_off = 0\<rparr>, 16),
                (Some \<lparr>block = 1, byte_off = 16\<rparr>, 8)]"
  have ctor: "MemoryPool \<lparr>next_block = 0, free_slots = 131072\<rparr> 128 True = Inr (?h, ?p)
              \<or> MemoryPool_bytes \<lparr>next_block = 0, free_slots = 131072\<rparr> 128 True 0 = Inr (?h, ?p)"
    by (simp add: MemoryPool_def MemoryPoolImpl_def expand_def new_uint64_array_def chunksize_def)
  have run: "allocate_seq ?h ?p [524280, 16, 8]
             = Inr (?outs, \<lparr>next_block = 2, free_slots = 0\<rparr>,
                    \<lparr>m_chunks = [\<lparr>ptr = \<lparr>block = 0, byte_off = 0\<rparr>, wmark = 65535, size_c = 65536\<rparr>,
                                 \<lparr>ptr = \<lparr>block = 1, byte_off = 0\<rparr>, wmark = 3, size_c = 65536\<rparr>],
                     m_index = 1, m_can_expand = True\<rparr>)"
    by (simp add: MemoryPool_allocate_def allocate_def expand_def new_uint64_array_def
        chunksize_def ptr_add_def Let_def)
  have small: "\<forall>b \<in> set [524280, 16, 8 :: size_t]. unat b \<le> 2 ^ 64 - 8" by simp
  have "(1::nat) < 2" and "2 < length ?outs" by simp_all
  from regions_disjoint [OF ctor run small this] show ?thesis by simp
qed

subsection \<open>Requests of zero bytes\<close>

text \<open>
  Claim C9. On a pool that satisfies the invariant, as every pool does from its
  constructor on, a request of 0 bytes is accepted: \<^verbatim>\<open>allocate\<close> returns a non-null
  pointer, the address at the high-water mark of the current chunk, and consumes no
  slot. The allocator and the pool are exactly as before, so the mark of the current
  chunk and the chunk count are unchanged. This holds whether or not growth is
  permitted, and also when the current chunk is full.
\<close>

theorem zero_byte_allocation:
  assumes "pool_inv p"
  shows "slot_count 0 = 0
       \<and> allocate h p 0 ce
           = Inr (Some (ptr_add (ptr (m_chunks p ! m_index p)) (wmark (m_chunks p ! m_index p))), h, p)
       \<and> MemoryPool_allocate h p 0
           = Inr (Some (ptr_add (ptr (m_chunks p ! m_index p)) (wmark (m_chunks p ! m_index p))), h, p)"
proof -
  have z: "slot_count 0 = 0" by (simp add: slot_count_def)
  note cur = pool_inv_current [OF assms]
  from cur(2) have "unat (wmark (m_chunks p ! m_index p)) + unat (slot_count 0)
                    \<le> unat (size_c (m_chunks p ! m_index p))"
    by (simp add: z chunk_inv_def word_le_nat_alt)
  from allocate_fits [OF cur(1) this]
  have "allocate h p 0 ce
        = Inr (Some (ptr_add (ptr (m_chunks p ! m_index p)) (wmark (m_chunks p ! m_index p))), h, p)"
    for ce by (simp add: z)
  then show ?thesis by (simp add: z MemoryPool_allocate_def)
qed

theorem zero_byte_allocation_witness:
  "allocate \<lparr>next_block = 1, free_slots = 0\<rparr>
       \<lparr>m_chunks = [\<lparr>ptr = \<lparr>block = 0, byte_off = 0\<rparr>, wmark = 65536, size_c = 65536\<rparr>],
        m_index = 0, m_can_expand = False\<rparr> 0 False
     = Inr (Some \<lparr>block = 0, byte_off = 524288\<rparr>, \<lparr>next_block = 1, free_slots = 0\<rparr>,
            \<lparr>m_chunks = [\<lparr>ptr = \<lparr>block = 0, byte_off = 0\<rparr>, wmark = 65536, size_c = 65536\<rparr>],
             m_index = 0, m_can_expand = False\<rparr>)"
  using zero_byte_allocation [of
      "\<lparr>m_chunks = [\<lparr>ptr = \<lparr>block = 0, byte_off = 0\<rparr>, wmark = 65536, size_c = 65536\<rparr>],
        m_index = 0, m_can_expand = False\<rparr>" "\<lparr>next_block = 1, free_slots = 0\<rparr>" False]
  by (simp add: pool_inv_def chunk_inv_def ptr_add_def)

subsection \<open>The slot count wraps\<close>

text \<open>
  Claim C10. For every byte count above \<open>2 ^ 64 - 8\<close> the sum \<^verbatim>\<open>bytes + 8 - 1\<close> wraps
  in \<^verbatim>\<open>size_t\<close> and the slot count is 0. \<^verbatim>\<open>expand\<close> and \<^verbatim>\<open>allocate\<close> then do exactly
  what they do for a request of 0 bytes: on a pool that satisfies the invariant,
  \<^verbatim>\<open>allocate\<close> returns the non-null address at the mark of the current chunk and
  consumes no slot.
\<close>

theorem slot_count_overflow:
  assumes "2 ^ 64 - 8 < unat bytes"
  shows "slot_count bytes = 0
       \<and> expand h p bytes = expand h p 0
       \<and> allocate h p bytes ce = allocate h p 0 ce
       \<and> (pool_inv p \<longrightarrow>
            allocate h p bytes ce
            = Inr (Some (ptr_add (ptr (m_chunks p ! m_index p)) (wmark (m_chunks p ! m_index p))), h, p))"
proof -
  have n: "slot_count bytes = 0" using assms by (rule slot_count_wraps)
  have z: "slot_count 0 = 0" by (simp add: slot_count_def)
  have n': "(bytes + 8 - 1) div 8 = 0" "((0::size_t) + 8 - 1) div 8 = 0"
    using n z unfolding slot_count_def by simp_all
  have e: "expand h p bytes = expand h p 0"
    unfolding expand_def n' ..
  have a: "allocate h p bytes ce = allocate h p 0 ce"
    unfolding allocate_def n' e ..
  have "allocate h p bytes ce
        = Inr (Some (ptr_add (ptr (m_chunks p ! m_index p)) (wmark (m_chunks p ! m_index p))), h, p)"
    if inv: "pool_inv p"
  proof -
    note cur = pool_inv_current [OF inv]
    from cur(2) have "unat (wmark (m_chunks p ! m_index p)) + unat (slot_count bytes)
                      \<le> unat (size_c (m_chunks p ! m_index p))"
      by (simp add: n chunk_inv_def word_le_nat_alt)
    from allocate_fits [OF cur(1) this] show ?thesis by (simp add: n)
  qed
  with n e a show ?thesis by simp
qed

theorem slot_count_overflow_witness:
  "slot_count 18446744073709551615 = 0
   \<and> allocate \<lparr>next_block = 1, free_slots = 0\<rparr>
       \<lparr>m_chunks = [\<lparr>ptr = \<lparr>block = 0, byte_off = 0\<rparr>, wmark = 17, size_c = 65536\<rparr>],
        m_index = 0, m_can_expand = False\<rparr> 18446744073709551615 False
     = Inr (Some \<lparr>block = 0, byte_off = 136\<rparr>, \<lparr>next_block = 1, free_slots = 0\<rparr>,
            \<lparr>m_chunks = [\<lparr>ptr = \<lparr>block = 0, byte_off = 0\<rparr>, wmark = 17, size_c = 65536\<rparr>],
             m_index = 0, m_can_expand = False\<rparr>)"
proof -
  have big: "2 ^ 64 - 8 < unat (18446744073709551615 :: size_t)" by simp
  have inv: "pool_inv \<lparr>m_chunks = [\<lparr>ptr = \<lparr>block = 0, byte_off = 0\<rparr>, wmark = 17, size_c = 65536\<rparr>],
                       m_index = 0, m_can_expand = False\<rparr>"
    by (simp add: pool_inv_def chunk_inv_def)
  note wrap = slot_count_overflow [OF big, of "\<lparr>next_block = 1, free_slots = 0\<rparr>"
      "\<lparr>m_chunks = [\<lparr>ptr = \<lparr>block = 0, byte_off = 0\<rparr>, wmark = 17, size_c = 65536\<rparr>],
        m_index = 0, m_can_expand = False\<rparr>" False]
  from wrap have n: "slot_count 18446744073709551615 = 0" by (rule conjunct1)
  from wrap [THEN conjunct2, THEN conjunct2, THEN conjunct2, THEN mp, OF inv] n
  show ?thesis by (simp add: ptr_add_def)
qed

end
